theory Spec2Isabelle
  imports Main "HOL-Library.Word"
begin

section \<open>JavaScript strings\<close>

text \<open>
  A JavaScript string is modelled as a \<^typ>\<open>string\<close>: one \<^typ>\<open>char\<close> per UTF-16 code unit,
  restricted to code units below 256 (Latin-1). Every pattern and literal of the compile route
  is ASCII, so this restriction only limits the inputs, not the program.
\<close>

definition is_space :: "char \<Rightarrow> bool" where
  \<comment> \<open>the regular expression class \<open>\s\<close> and the characters removed by \<open>trim()\<close>:
      TAB, LF, VT, FF, CR, space and the no-break space\<close>
  "is_space c =
     (c = CHR 0x09 \<or> c = CHR 0x0A \<or> c = CHR 0x0B \<or> c = CHR 0x0C \<or> c = CHR 0x0D \<or> c = CHR 0x20
      \<or> c = CHR 0xA0)"

definition in_range :: "char \<Rightarrow> char \<Rightarrow> char \<Rightarrow> bool" where
  "in_range lo hi c = ((of_char lo :: nat) \<le> of_char c \<and> (of_char c :: nat) \<le> of_char hi)"

definition is_digit :: "char \<Rightarrow> bool" where
  "is_digit c = in_range CHR ''0'' CHR ''9'' c"

fun set_bit5 :: "bool \<Rightarrow> char \<Rightarrow> char" where
  \<comment> \<open>bit 5 of a code unit is worth 32, the distance between the two cases of a letter\<close>
  "set_bit5 b (Char b0 b1 b2 b3 b4 b5 b6 b7) = Char b0 b1 b2 b3 b4 b b6 b7"

definition ascii_upper :: "char \<Rightarrow> char" where
  \<comment> \<open>the canonicalisation of the \<open>i\<close> flag, on the ASCII letters the patterns use\<close>
  "ascii_upper c = (if in_range CHR ''a'' CHR ''z'' c then set_bit5 False c else c)"

definition lower_char :: "char \<Rightarrow> char" where
  \<comment> \<open>\<open>toLowerCase()\<close> on one Latin-1 code unit: A to Z and 0xC0 to 0xDE without 0xD7\<close>
  "lower_char c =
     (if in_range CHR ''A'' CHR ''Z'' c \<or> (in_range CHR 0xC0 CHR 0xDE c \<and> c \<noteq> CHR 0xD7)
      then set_bit5 True c else c)"

definition toLowerCase :: "string \<Rightarrow> string" where
  "toLowerCase s = map lower_char s"

definition upper_char :: "char \<Rightarrow> string" where
  \<comment> \<open>\<open>toUpperCase()\<close> on one Latin-1 code unit; the sharp s becomes two letters. The upper
      case of the micro sign and of the y with diaeresis lies beyond Latin-1, they are left as
      they are.\<close>
  "upper_char c =
     (if in_range CHR ''a'' CHR ''z'' c \<or> (in_range CHR 0xE0 CHR 0xFE c \<and> c \<noteq> CHR 0xF7)
      then [set_bit5 False c]
      else if c = CHR 0xDF then ''SS'' else [c])"

definition toUpperCase :: "string \<Rightarrow> string" where
  "toUpperCase s = concat (map upper_char s)"

fun starts_with :: "string \<Rightarrow> string \<Rightarrow> bool" where
  "starts_with [] s = True"
| "starts_with (p # ps) [] = False"
| "starts_with (p # ps) (c # cs) = (p = c \<and> starts_with ps cs)"

fun str_includes :: "string \<Rightarrow> string \<Rightarrow> bool" where
  \<comment> \<open>\<open>s.includes(sub)\<close>\<close>
  "str_includes [] sub = starts_with sub []"
| "str_includes (c # cs) sub = (starts_with sub (c # cs) \<or> str_includes cs sub)"

definition trim :: "string \<Rightarrow> string" where
  "trim s = rev (dropWhile is_space (rev (dropWhile is_space s)))"

fun split_on :: "char \<Rightarrow> string \<Rightarrow> string list" where
  \<comment> \<open>\<open>s.split(sep)\<close> for a one-character separator: always at least one piece\<close>
  "split_on sep [] = [[]]"
| "split_on sep (c # cs) =
     (if c = sep then [] # split_on sep cs
      else (case split_on sep cs of [] \<Rightarrow> [[c]] | l # ls \<Rightarrow> (c # l) # ls))"

fun join :: "string \<Rightarrow> string list \<Rightarrow> string" where
  "join sep [] = []"
| "join sep [x] = x"
| "join sep (x # y # ys) = x @ sep @ join sep (y # ys)"

fun replace_first :: "string \<Rightarrow> string \<Rightarrow> string \<Rightarrow> string" where
  \<comment> \<open>\<open>s.replace(pat, rep)\<close> with a string pattern: only the first occurrence\<close>
  "replace_first pat rep [] = (if pat = [] then rep else [])"
| "replace_first pat rep (c # cs) =
     (if starts_with pat (c # cs) then rep @ drop (length pat) (c # cs)
      else c # replace_first pat rep cs)"

section \<open>Regular expressions\<close>

text \<open>
  The patterns of the route are kept as syntax trees and run by a backtracking matcher that
  tries the alternatives in the order of the ECMAScript semantics: the left branch of
  \<open>|\<close> first, a greedy repetition longest first, a lazy one shortest first. An iteration
  of a repetition that consumes nothing is rejected, so the length of the remaining input
  bounds the number of iterations.
\<close>

datatype citem = One char | Range char char | Space | NonSpace | Digit

datatype rx =
    Lit string
  | Cls bool "citem list"
  | Seq rx rx
  | Alt rx rx
  | Star rx
  | StarLazy rx
  | Group nat rx
  | Look rx
  | Eos

type_synonym caps = "(nat \<times> string) list"
type_synonym mres = "string \<times> caps"
type_synonym cont = "string \<Rightarrow> caps \<Rightarrow> mres option"

fun in_item :: "bool \<Rightarrow> citem \<Rightarrow> char \<Rightarrow> bool" where
  "in_item ci (One x) c = (if ci then ascii_upper x = ascii_upper c else x = c)"
| "in_item ci (Range lo hi) c =
     (in_range lo hi c \<or> (ci \<and> (in_range lo hi (ascii_upper c) \<or> in_range lo hi (lower_char c))))"
| "in_item ci Space c = is_space c"
| "in_item ci NonSpace c = (\<not> is_space c)"
| "in_item ci Digit c = is_digit c"

fun lit_prefix :: "bool \<Rightarrow> string \<Rightarrow> string \<Rightarrow> bool" where
  "lit_prefix ci [] s = True"
| "lit_prefix ci (p # ps) [] = False"
| "lit_prefix ci (p # ps) (c # cs) =
     ((if ci then ascii_upper p = ascii_upper c else p = c) \<and> lit_prefix ci ps cs)"

primrec star_greedy :: "(cont \<Rightarrow> cont) \<Rightarrow> nat \<Rightarrow> cont \<Rightarrow> cont" where
  "star_greedy f 0 k = k"
| "star_greedy f (Suc n) k =
     (\<lambda>s c. case f (\<lambda>s' c'. if length s' < length s then star_greedy f n k s' c' else None) s c of
               Some r \<Rightarrow> Some r
             | None \<Rightarrow> k s c)"

primrec star_lazy :: "(cont \<Rightarrow> cont) \<Rightarrow> nat \<Rightarrow> cont \<Rightarrow> cont" where
  "star_lazy f 0 k = k"
| "star_lazy f (Suc n) k =
     (\<lambda>s c. case k s c of
               Some r \<Rightarrow> Some r
             | None \<Rightarrow> f (\<lambda>s' c'. if length s' < length s then star_lazy f n k s' c' else None) s c)"

primrec rx_m :: "bool \<Rightarrow> rx \<Rightarrow> cont \<Rightarrow> cont" where
  "rx_m ci (Lit l) k = (\<lambda>s c. if lit_prefix ci l s then k (drop (length l) s) c else None)"
| "rx_m ci (Cls neg items) k =
     (\<lambda>s c. case s of [] \<Rightarrow> None
            | x # xs \<Rightarrow> if list_ex (\<lambda>i. in_item ci i x) items \<noteq> neg then k xs c else None)"
| "rx_m ci (Seq a b) k = rx_m ci a (rx_m ci b k)"
| "rx_m ci (Alt a b) k =
     (\<lambda>s c. case rx_m ci a k s c of Some r \<Rightarrow> Some r | None \<Rightarrow> rx_m ci b k s c)"
| "rx_m ci (Star r) k = (\<lambda>s c. star_greedy (rx_m ci r) (length s) k s c)"
| "rx_m ci (StarLazy r) k = (\<lambda>s c. star_lazy (rx_m ci r) (length s) k s c)"
| "rx_m ci (Group n r) k =
     (\<lambda>s c. rx_m ci r (\<lambda>s' c'. k s' ((n, take (length s - length s') s) # c')) s c)"
| "rx_m ci (Look r) k =
     (\<lambda>s c. case rx_m ci r (\<lambda>s' c'. Some (s', c')) s c of
               Some (s', c') \<Rightarrow> k s c'
             | None \<Rightarrow> None)"
| "rx_m ci Eos k = (\<lambda>s c. if s = [] then k s c else None)"

definition match_here :: "bool \<Rightarrow> rx \<Rightarrow> string \<Rightarrow> mres option" where
  \<comment> \<open>a match that starts at the first character: the rest of the input and the captures\<close>
  "match_here ci r s = rx_m ci r (\<lambda>s' c'. Some (s', c')) s []"

abbreviation BS :: char where
  \<comment> \<open>the backslash, which a string literal cannot contain\<close>
  "BS \<equiv> CHR 0x5C"

abbreviation NL :: char where
  "NL \<equiv> CHR 0x0A"

definition Plus :: "rx \<Rightarrow> rx" where
  "Plus r = Seq r (Star r)"

definition Opt :: "rx \<Rightarrow> rx" where
  "Opt r = Alt r (Lit [])"

primrec Times :: "nat \<Rightarrow> rx \<Rightarrow> rx" where
  "Times 0 r = Lit []"
| "Times (Suc n) r = Seq r (Times n r)"

definition Any :: rx where
  \<comment> \<open>\<open>[\s\S]\<close>\<close>
  "Any = Cls False [Space, NonSpace]"

definition Not :: "string \<Rightarrow> rx" where
  \<comment> \<open>\<open>[^...]\<close> over single characters\<close>
  "Not cs = Cls True (map One cs)"

definition Spaces :: rx where
  \<comment> \<open>\<open>\s*\<close>\<close>
  "Spaces = Star (Cls False [Space])"

fun seqs :: "rx list \<Rightarrow> rx" where
  "seqs [] = Lit []"
| "seqs [r] = r"
| "seqs (r # rs) = Seq r (seqs rs)"

fun alts :: "rx list \<Rightarrow> rx" where
  "alts [] = Lit []"
| "alts [r] = r"
| "alts (r # rs) = Alt r (alts rs)"

definition grp :: "caps \<Rightarrow> nat \<Rightarrow> string option" where
  \<comment> \<open>\<open>match[n]\<close>: \<open>None\<close> is \<open>undefined\<close>, a group that took no part in the match\<close>
  "grp c n = map_of c n"

definition grp_or_empty :: "caps \<Rightarrow> nat \<Rightarrow> string" where
  \<comment> \<open>\<open>match[n] || ''\<close>\<close>
  "grp_or_empty c n = (case grp c n of Some v \<Rightarrow> v | None \<Rightarrow> [])"

fun rx_match :: "bool \<Rightarrow> rx \<Rightarrow> string \<Rightarrow> caps option" where
  \<comment> \<open>\<open>s.match(r)\<close> without the \<open>g\<close> flag: the captures of the leftmost match\<close>
  "rx_match ci r [] = map_option snd (match_here ci r [])"
| "rx_match ci r (x # xs) =
     (case match_here ci r (x # xs) of
        Some (rest, c) \<Rightarrow> Some c
      | None \<Rightarrow> rx_match ci r xs)"

definition rx_test :: "bool \<Rightarrow> rx \<Rightarrow> string \<Rightarrow> bool" where
  "rx_test ci r s = (rx_match ci r s \<noteq> None)"

text \<open>
  The loops over all matches (\<open>replace\<close> with the \<open>g\<close> flag, \<open>while (exec)\<close>) walk the
  input once; the counter is the number of characters still covered by the last match.
  After a match that consumed nothing the walk moves on by one character, which is what
  \<open>replace\<close> does; no pattern that the route runs in a \<open>while (exec)\<close> loop can match the
  empty string, each starts with a literal backslash.
\<close>

fun rx_replace_from :: "bool \<Rightarrow> rx \<Rightarrow> (caps \<Rightarrow> string) \<Rightarrow> nat \<Rightarrow> string \<Rightarrow> string" where
  "rx_replace_from ci r rep k [] =
     (if k = 0 then (case match_here ci r [] of Some (rest, c) \<Rightarrow> rep c | None \<Rightarrow> []) else [])"
| "rx_replace_from ci r rep k (x # xs) =
     (if 0 < k then rx_replace_from ci r rep (k - 1) xs
      else (case match_here ci r (x # xs) of
              None \<Rightarrow> x # rx_replace_from ci r rep 0 xs
            | Some (rest, c) \<Rightarrow>
                (if length rest = length (x # xs) then rep c @ x # rx_replace_from ci r rep 0 xs
                 else rep c @ rx_replace_from ci r rep (length xs - length rest) xs)))"

definition rx_replace :: "rx \<Rightarrow> string \<Rightarrow> string \<Rightarrow> string" where
  \<comment> \<open>\<open>s.replace(/r/g, rep)\<close> for a replacement text without \<open>$\<close>\<close>
  "rx_replace r rep s = rx_replace_from False r (\<lambda>c. rep) 0 s"

fun rx_exec_from :: "bool \<Rightarrow> rx \<Rightarrow> nat \<Rightarrow> string \<Rightarrow> caps list" where
  "rx_exec_from ci r k [] =
     (if k = 0 then (case match_here ci r [] of Some (rest, c) \<Rightarrow> [c] | None \<Rightarrow> []) else [])"
| "rx_exec_from ci r k (x # xs) =
     (if 0 < k then rx_exec_from ci r (k - 1) xs
      else (case match_here ci r (x # xs) of
              None \<Rightarrow> rx_exec_from ci r 0 xs
            | Some (rest, c) \<Rightarrow> c # rx_exec_from ci r (length xs - length rest) xs))"

definition rx_exec_all :: "rx \<Rightarrow> string \<Rightarrow> caps list" where
  \<comment> \<open>the captures of every match of \<open>while ((match = r.exec(s)) !== null)\<close>, in order\<close>
  "rx_exec_all r s = rx_exec_from False r 0 s"

section \<open>The compatibility simplifier\<close>

text \<open>\<open>simplifyLatexForOnlineServices\<close> of the full compile route: its replacements in order.\<close>

definition braced_arg :: "string \<Rightarrow> rx" where
  \<comment> \<open>\<open>head[^}]*\}\<close> for a literal head\<close>
  "braced_arg h = seqs [Lit h, Star (Not ''}''), Lit ''}'']"

definition simplify_rules :: "(rx \<times> string) list" where
  "simplify_rules =
    [(Lit (BS # ''usepackage{fontawesome5}''), ''% fontawesome5 not available''),
     (Lit (BS # ''faPhone''), ''Tel:''),
     (Lit (BS # ''faEnvelope''), ''Email:''),
     (Lit (BS # ''faLinkedin''), ''LinkedIn:''),
     (Lit (BS # ''faGithub''), ''GitHub:''),
     (braced_arg (BS # ''raisebox{''), []),
     (Lit (BS # ''usepackage{marvosym}''), ''% marvosym not available''),
     (Lit (BS # ''usepackage{multicol}''), ''% multicol simplified''),
     (Lit (BS # ''input{glyphtounicode}''), ''% glyphtounicode not available''),
     (braced_arg (BS # ''addtolength{'' @ BS # ''oddsidemargin}{''), []),
     (braced_arg (BS # ''addtolength{'' @ BS # ''evensidemargin}{''), []),
     (braced_arg (BS # ''addtolength{'' @ BS # ''textwidth}{''), []),
     (braced_arg (BS # ''addtolength{'' @ BS # ''topmargin}{''), []),
     (braced_arg (BS # ''addtolength{'' @ BS # ''textheight}{''), []),
     (Lit (BS # ''pagestyle{fancy}''), BS # ''pagestyle{empty}''),
     (Lit (BS # ''fancyhf{}''), []),
     (Lit (BS # ''fancyfoot{}''), []),
     (braced_arg (BS # ''renewcommand'' @ BS # ''labelitemi{''), []),
     (braced_arg (BS # ''renewcommand'' @ BS # ''labelitemii{''), [])]"

definition documentclass_line :: string where
  "documentclass_line = BS # ''documentclass[letterpaper,11pt]{article}''"

definition geometry_line :: string where
  "geometry_line = BS # ''usepackage[margin=0.75in]{geometry}''"

definition apply_rules :: "(rx \<times> string) list \<Rightarrow> string \<Rightarrow> string" where
  \<comment> \<open>\<open>simplified = simplified.replace(r, rep)\<close>, one rule after the other\<close>
  "apply_rules rules latex = foldl (\<lambda>simplified (r, rep). rx_replace r rep simplified) latex rules"

definition simplifyLatexForOnlineServices :: "string \<Rightarrow> string" where
  "simplifyLatexForOnlineServices latex =
     (let simplified = apply_rules simplify_rules latex in
      if \<not> str_includes simplified (BS # ''usepackage{geometry}'')
      then replace_first documentclass_line (documentclass_line @ NL # geometry_line) simplified
      else simplified)"

text \<open>\<open>simplifyLatexForOnlineServices\<close> of \<open>src/app/api/compile/route.ts\<close>.\<close>

definition simplify_rules_route :: "(rx \<times> string) list" where
  "simplify_rules_route =
    [(Seq (Lit (BS # ''usepackage{fontawesome'')) (Seq (Opt (Lit ''5'')) (Lit ''}'')),
        ''% FontAwesome not available online''),
     (Lit (BS # ''usepackage{marvosym}''), ''% Marvosym not available online''),
     (Lit (BS # ''input{glyphtounicode}''), ''% Glyphtounicode not available online''),
     (Lit (BS # ''faPhone''), ''Tel:''),
     (Lit (BS # ''faEnvelope''), ''Email:''),
     (Lit (BS # ''faLinkedin''), ''LinkedIn:''),
     (Lit (BS # ''faGithub''), ''GitHub:''),
     (seqs [Lit (BS # ''addtolength{''), Star (Not ''}''), Lit ''}{'', Star (Not ''}''), Lit ''}''], [])]"

definition simplifyLatexForOnlineServices_route :: "string \<Rightarrow> string" where
  "simplifyLatexForOnlineServices_route latex = apply_rules simplify_rules_route latex"

definition construct_free :: "(rx \<times> string) list \<Rightarrow> string \<Rightarrow> bool" where
  \<comment> \<open>no pattern of the rule list matches anywhere in the text\<close>
  "construct_free rules s = list_all (\<lambda>(r, rep). \<not> rx_test False r s) rules"

section \<open>The remote typesetting client\<close>

type_synonym bytes = "8 word list"

datatype endpoint =
    LatexOnlineGet    \<comment> \<open>\<open>GET https://latexonline.cc/compile?text=...&command=...\<close>\<close>
  | LatexOnlinePost   \<comment> \<open>\<open>POST https://latexonline.cc/compile\<close>\<close>
  | AslushnikovPost   \<comment> \<open>\<open>POST https://latex.aslushnikov.com/compile\<close>\<close>

record request =
  endpoint :: endpoint
  latex_text :: string
  command :: "string option"

record response =
  ok :: bool
  content_type :: "string option"
  arrayBuffer :: bytes

datatype fetch_result = Rejected | Resolved response

text \<open>
  The network is a parameter: what each request is answered with and after how many
  milliseconds. A rejected \<open>fetch\<close> is a transport error (or an abort by the client).
\<close>

type_synonym network = "request \<Rightarrow> nat \<times> fetch_result"

definition fetch :: "network \<Rightarrow> nat option \<Rightarrow> request \<Rightarrow> nat \<times> fetch_result" where
  \<comment> \<open>\<open>await fetch(...)\<close>, with the \<open>AbortController\<close> timer when there is one\<close>
  "fetch net abort_after req =
     (let (t, r) = net req in
      case abort_after of
        None \<Rightarrow> (t, r)
      | Some d \<Rightarrow> if d \<le> t then (d, Rejected) else (t, r))"

definition is_pdf :: "response \<Rightarrow> bool" where
  \<comment> \<open>\<open>response.headers.get('content-type')?.includes('pdf')\<close>\<close>
  "is_pdf resp = (case content_type resp of None \<Rightarrow> False | Some ct \<Rightarrow> str_includes ct ''pdf'')"

definition typed_pdf :: "response \<Rightarrow> bytes option" where
  \<comment> \<open>the \<open>return\<close> of the methods that look at the content type\<close>
  "typed_pdf resp =
     (if ok resp \<and> is_pdf resp \<and> 1000 < length (arrayBuffer resp) then Some (arrayBuffer resp)
      else None)"

definition untyped_pdf :: "response \<Rightarrow> bytes option" where
  \<comment> \<open>the \<open>return\<close> of the alternative service: \<open>if (altResponse.ok)\<close> and the size only\<close>
  "untyped_pdf resp =
     (if ok resp \<and> 1000 < length (arrayBuffer resp) then Some (arrayBuffer resp) else None)"

record service_call =
  request :: request
  abort_after :: "nat option"
  accepts :: "response \<Rightarrow> bytes option"
  own_try :: bool  \<comment> \<open>the \<open>fetch\<close> sits in a \<open>try\<close> of its own, so a rejection moves on to the next method\<close>

record attempt =
  result :: "bytes option"   \<comment> \<open>\<open>Uint8Array | null\<close>\<close>
  elapsed :: nat
  calls :: "request list"

fun run_methods :: "network \<Rightarrow> service_call list \<Rightarrow> attempt \<Rightarrow> attempt" where
  "run_methods net [] a = a"
| "run_methods net (m # ms) a =
     (let (t, r) = fetch net (abort_after m) (request m);
          a' = a\<lparr>elapsed := elapsed a + t, calls := calls a @ [request m]\<rparr>
      in case r of
           Rejected \<Rightarrow> if own_try m then run_methods net ms a' else a'
         | Resolved resp \<Rightarrow>
             (case accepts m resp of
                Some pdf \<Rightarrow> a'\<lparr>result := Some pdf\<rparr>
              | None \<Rightarrow> run_methods net ms a'))"

definition latexonline :: "endpoint \<Rightarrow> string \<Rightarrow> string \<Rightarrow> request" where
  "latexonline e latexContent cmd = \<lparr>endpoint = e, latex_text = latexContent, command = Some cmd\<rparr>"

definition methods :: "string \<Rightarrow> service_call list" where
  \<comment> \<open>Methods 1 to 5 of \<open>tryLatexOnline\<close> in the full compile route\<close>
  "methods latexContent =
    [\<lparr>request = latexonline LatexOnlineGet latexContent ''pdflatex'', abort_after = None,
      accepts = typed_pdf, own_try = True\<rparr>,
     \<lparr>request = latexonline LatexOnlinePost latexContent ''pdflatex'', abort_after = Some 45000,
      accepts = typed_pdf, own_try = False\<rparr>,
     \<lparr>request = latexonline LatexOnlinePost latexContent ''xelatex'', abort_after = None,
      accepts = typed_pdf, own_try = True\<rparr>,
     \<lparr>request = \<lparr>endpoint = AslushnikovPost, latex_text = latexContent, command = None\<rparr>,
      abort_after = None, accepts = untyped_pdf, own_try = True\<rparr>,
     \<lparr>request = latexonline LatexOnlinePost latexContent ''lualatex'', abort_after = None,
      accepts = typed_pdf, own_try = True\<rparr>]"

definition no_attempt :: attempt where
  "no_attempt = \<lparr>result = None, elapsed = 0, calls = []\<rparr>"

definition tryLatexOnline :: "network \<Rightarrow> string \<Rightarrow> attempt" where
  "tryLatexOnline net latexContent = run_methods net (methods latexContent) no_attempt"

definition tryLatexOnline_route :: "network \<Rightarrow> string \<Rightarrow> attempt" where
  \<comment> \<open>\<open>tryLatexOnline\<close> of \<open>src/app/api/compile/route.ts\<close>: Methods 1 and 2 only\<close>
  "tryLatexOnline_route net latexContent = run_methods net (take 2 (methods latexContent)) no_attempt"

section \<open>The orchestrator\<close>

definition race :: "nat \<Rightarrow> attempt \<Rightarrow> bytes option" where
  \<comment> \<open>\<open>Promise.race([tryLatexOnline(..), timeout]).catch(() => null)\<close>\<close>
  "race deadline a = (if elapsed a < deadline then result a else None)"

definition compileLatexToPDF_with ::
  "(network \<Rightarrow> string \<Rightarrow> attempt) \<Rightarrow> (string \<Rightarrow> string) \<Rightarrow> network \<Rightarrow> string \<Rightarrow> bytes option \<times> request list" where
  \<comment> \<open>\<open>compileLatexToPDF\<close>, the same text in both routes, over the client and the simplifier of each\<close>
  "compileLatexToPDF_with client simplify net latexContent =
     (let a1 = client net latexContent in
      case race 30000 a1 of
        Some originalResult \<Rightarrow> (Some originalResult, calls a1)
      | None \<Rightarrow>
          (let simplifiedLatex = simplify latexContent in
           if simplifiedLatex \<noteq> latexContent
           then (let a2 = client net simplifiedLatex in (race 25000 a2, calls a1 @ calls a2))
           else (None, calls a1)))"

definition compileLatexToPDF :: "network \<Rightarrow> string \<Rightarrow> bytes option \<times> request list" where
  "compileLatexToPDF = compileLatexToPDF_with tryLatexOnline simplifyLatexForOnlineServices"

definition compileLatexToPDF_route :: "network \<Rightarrow> string \<Rightarrow> bytes option \<times> request list" where
  "compileLatexToPDF_route =
     compileLatexToPDF_with tryLatexOnline_route simplifyLatexForOnlineServices_route"

section \<open>The universal resume parser\<close>

record contact =
  email :: "string option"
  phone :: "string option"
  address :: "string option"
  linkedin :: "string option"
  github :: "string option"

record experience_entry =
  company :: "string option"
  period :: "string option"
  position :: "string option"
  location :: "string option"
  details :: "string option"

record education_entry =
  edu_period :: string
  degree :: string
  institution :: string
  edu_location :: string
  gpa :: string

record skill_group =
  category :: string
  items :: string

record project_entry =
  name :: string
  date :: "string option"
  description :: string

record raw_section =
  title :: string
  content :: string

record resume =
  resume_name :: string
  resume_title :: string
  resume_contact :: contact
  summary :: string
  experience :: "experience_entry list"
  education :: "education_entry list"
  skills :: "skill_group list"
  projects :: "project_entry list"
  achievements :: "project_entry list"
  rawSections :: "raw_section list"

definition truthy :: "string option \<Rightarrow> bool" where
  \<comment> \<open>a string property in a condition: neither \<open>undefined\<close> nor empty\<close>
  "truthy v = (case v of None \<Rightarrow> False | Some s \<Rightarrow> s \<noteq> [])"

definition or_empty :: "string option \<Rightarrow> string" where
  \<comment> \<open>\<open>v || ''\<close>\<close>
  "or_empty v = (case v of None \<Rightarrow> [] | Some s \<Rightarrow> s)"

definition lower :: rx where "lower = Cls False [Range CHR ''a'' CHR ''z'']"
definition upper :: rx where "upper = Cls False [Range CHR ''A'' CHR ''Z'']"
definition letter :: rx where
  "letter = Cls False [Range CHR ''a'' CHR ''z'', Range CHR ''A'' CHR ''Z'']"
definition digit :: rx where "digit = Cls False [Range CHR ''0'' CHR ''9'']"

definition braced :: "nat \<Rightarrow> rx" where
  \<comment> \<open>\<open>([^}]+)\}\<close>, after a head that ends with the opening brace\<close>
  "braced n = Seq (Group n (Plus (Not ''}''))) (Lit ''}'')"

definition arg :: "nat \<Rightarrow> rx" where
  \<comment> \<open>\<open>\{([^}]*)\}\<close>\<close>
  "arg n = seqs [Lit ''{'', Group n (Star (Not ''}'')), Lit ''}'']"

definition macro_clean :: rx where
  \<comment> \<open>\<open>/\\[a-zA-Z]+\*?\{?/\<close>\<close>
  "macro_clean = seqs [Lit [BS], Plus letter, Opt (Lit ''*''), Opt (Lit ''{'')]"

definition macro_clean_plain :: rx where
  \<comment> \<open>\<open>/\\[a-zA-Z]+\{?/\<close>\<close>
  "macro_clean_plain = seqs [Lit [BS], Plus letter, Opt (Lit ''{'')]"

definition clean_line :: "string \<Rightarrow> string" where
  \<comment> \<open>\<open>line.replace(/\\[a-zA-Z]+\*?\{?/g, '').replace(/\}/g, '').trim()\<close>\<close>
  "clean_line line = trim (rx_replace (Lit ''}'') [] (rx_replace macro_clean [] line))"

definition clean_line_plain :: "string \<Rightarrow> string" where
  \<comment> \<open>\<open>line.replace(/\\[a-zA-Z]+\{?/g, '').replace(/\}/g, '').trim()\<close>\<close>
  "clean_line_plain line = trim (rx_replace (Lit ''}'') [] (rx_replace macro_clean_plain [] line))"

subsection \<open>Name\<close>

definition name_patterns :: "(bool \<times> rx) list" where
  \<comment> \<open>the patterns of \<open>extractName\<close>, each with its \<open>i\<close> flag\<close>
  "name_patterns =
    [(False, Seq (Lit (BS # ''name{'')) (braced 1)),
     (False, Seq (Lit (BS # ''author{'')) (braced 1)),
     (False, seqs [Lit (''{'' @ BS # ''LARGE'' @ BS # ''textbf{''), braced 1, Lit ''}'']),
     (False, Seq (Lit (BS # ''LARGE'' @ BS # ''textbf{'')) (braced 1)),
     (False, seqs [Lit (BS # ''centerline{'' @ BS # ''huge''), Spaces, Lit (BS # ''bfseries''), Spaces, braced 1]),
     (False, seqs [Lit (BS # ''centerline{'' @ BS # ''huge''), Spaces, Lit (BS # ''scshape''), Spaces, braced 1]),
     (False, seqs [Lit (BS # ''begin{center}''), StarLazy Any, Lit (''{'' @ BS # ''Huge''), Spaces,
                   Lit (BS # ''scshape''), Spaces, braced 1]),
     (False, seqs [Lit (BS # ''begin{center}''), StarLazy Any, Lit (''{'' @ BS # ''huge''), Spaces,
                   Lit (BS # ''bfseries''), Spaces, braced 1]),
     (True, seqs [Lit (BS # ''textbf{''),
                  Group 1 (seqs [Star (Not ''}''),
                                 alts [Lit ''John'', Lit ''Jane'', Lit ''Mr.'', Lit ''Ms.'', Lit ''Dr.''],
                                 Star (Not ''}'')]),
                  Lit ''}'']),
     (False, seqs [Lit (BS # ''large''), Spaces, Lit (BS # ''textbf{''), braced 1]),
     (False, seqs [Lit (BS # ''LARGE''), Spaces, Group 1 (Plus (Not [BS]))]),
     (False, seqs [Lit (BS # ''huge''), Spaces, Group 1 (Plus (Not [BS]))]),
     (False, seqs [Lit (BS # ''Huge''), Spaces, Lit (BS # ''scshape''), Spaces, Group 1 (Plus (Not [BS]))]),
     (False, seqs [Lit (BS # ''huge''), Spaces, Lit (BS # ''bfseries''), Spaces, Group 1 (Plus (Not [BS]))])]"

fun first_nonblank :: "(bool \<times> rx) list \<Rightarrow> string \<Rightarrow> string option" where
  \<comment> \<open>\<open>for (const pattern of patterns) { const match = latex.match(pattern);
      if (match && match[1].trim().length > 0) return match[1].trim() }\<close>\<close>
  "first_nonblank [] latex = None"
| "first_nonblank ((ci, r) # ps) latex =
     (case rx_match ci r latex of
        Some c \<Rightarrow> if 0 < length (trim (grp_or_empty c 1)) then Some (trim (grp_or_empty c 1))
                  else first_nonblank ps latex
      | None \<Rightarrow> first_nonblank ps latex)"

definition center_env :: rx where
  "center_env = seqs [Lit (BS # ''begin{center}''), Group 1 (StarLazy Any), Lit (BS # ''end{center}'')]"

definition name_in_center :: rx where
  "name_in_center =
     seqs [Lit (''{'' @ [BS]), alts [Lit ''Huge'', Lit ''huge'', Lit ''LARGE'', Lit ''Large''], Spaces,
           Opt (Alt (Lit (BS # ''scshape'')) (Lit (BS # ''bfseries''))), Spaces, braced 1]"

definition word_pair :: "rx \<Rightarrow> rx" where
  \<comment> \<open>\<open>[A-Z][a-z]+\<close>, the separator, \<open>[A-Z][a-z]+\<close>\<close>
  "word_pair sep = seqs [upper, Plus lower, sep, upper, Plus lower]"

definition centerline_name :: rx where
  "centerline_name =
     seqs [Lit (BS # ''centerline{''), StarLazy (Not ''}''),
           Group 1 (word_pair (Plus (Cls False [Space]))), Star (Not ''}''), Lit ''}'']"

definition center_name :: "string \<Rightarrow> string option" where
  \<comment> \<open>the name of the \<open>center\<close> environment, when the environment and the large text are there\<close>
  "center_name latex =
     (case rx_match False center_env latex of
        None \<Rightarrow> None
      | Some centerMatch \<Rightarrow>
          (case rx_match False name_in_center (grp_or_empty centerMatch 1) of
             None \<Rightarrow> None
           | Some nameInCenter \<Rightarrow> Some (trim (grp_or_empty nameInCenter 1))))"

fun first_capitalized :: "string list \<Rightarrow> string option" where
  \<comment> \<open>the loop over the first lines: the first two words of the first cleaned line that
      starts with two capitalised words\<close>
  "first_capitalized [] = None"
| "first_capitalized (line # lines) =
     (let cleanLine = clean_line line in
      if match_here False (word_pair (Lit '' '')) cleanLine \<noteq> None
      then Some (join '' '' (take 2 (split_on CHR '' '' cleanLine)))
      else first_capitalized lines)"

definition extractName :: "string \<Rightarrow> string" where
  "extractName latex =
     (case first_nonblank name_patterns latex of
        Some n \<Rightarrow> n
      | None \<Rightarrow>
          (case center_name latex of
             Some n \<Rightarrow> n
           | None \<Rightarrow>
               (case rx_match False centerline_name latex of
                  Some centerlineMatch \<Rightarrow> trim (grp_or_empty centerlineMatch 1)
                | None \<Rightarrow>
                    (case first_capitalized (take 15 (split_on NL latex)) of
                       Some n \<Rightarrow> n
                     | None \<Rightarrow> ''Resume Preview''))))"

subsection \<open>Title and contact\<close>

definition job_words :: rx where
  "job_words = alts [Lit ''Engineer'', Lit ''Developer'', Lit ''Manager'', Lit ''Analyst'', Lit ''Designer'']"

definition title_patterns :: "(bool \<times> rx) list" where
  "title_patterns =
    [(False, Seq (Lit (BS # ''title{'')) (braced 1)),
     (False, Seq (Lit (BS # ''subtitle{'')) (braced 1)),
     (True, seqs [Lit (BS # ''textit{''), Group 1 (seqs [Star (Not ''}''), job_words, Star (Not ''}'')]), Lit ''}'']),
     (True, seqs [Lit (BS # ''emph{''), Group 1 (seqs [Star (Not ''}''), job_words, Star (Not ''}'')]), Lit ''}''])]"

definition extractTitle :: "string \<Rightarrow> string" where
  "extractTitle latex = (case first_nonblank title_patterns latex of Some t \<Rightarrow> t | None \<Rightarrow> [])"

fun first_match :: "rx list \<Rightarrow> string \<Rightarrow> string option" where
  \<comment> \<open>\<open>for (const pattern of patterns) { const match = latex.match(pattern);
      if (match) { field = match[1]; break } }\<close>\<close>
  "first_match [] latex = None"
| "first_match (r # rs) latex =
     (case rx_match False r latex of
        Some c \<Rightarrow> Some (grp_or_empty c 1)
      | None \<Rightarrow> first_match rs latex)"

definition mail_chars :: rx where
  "mail_chars = Cls False [Range CHR ''a'' CHR ''z'', Range CHR ''A'' CHR ''Z'', Range CHR ''0'' CHR ''9'',
                           One CHR ''.'', One CHR ''_'', One CHR ''%'', One CHR ''+'', One CHR ''-'']"

definition host_chars :: rx where
  "host_chars = Cls False [Range CHR ''a'' CHR ''z'', Range CHR ''A'' CHR ''Z'', Range CHR ''0'' CHR ''9'',
                           One CHR ''.'', One CHR ''-'']"

definition mail_address :: rx where
  \<comment> \<open>\<open>([a-zA-Z0-9._%+-]+@[a-zA-Z0-9.-]+\.[a-zA-Z]{2,})\<close>\<close>
  "mail_address =
     Group 1 (seqs [Plus mail_chars, Lit ''@'', Plus host_chars, Lit ''.'', Times 2 letter, Star letter])"

definition emailPatterns :: "rx list" where
  "emailPatterns =
    [Seq (Lit (BS # ''email{'')) (braced 1),
     Seq (Lit (BS # ''href{mailto:'')) (braced 1),
     seqs [Lit (BS # ''faEnvelope''), Opt (Lit [BS]), Spaces, Lit (BS # ''underline{''), braced 1],
     seqs [Lit ''Email:'', Spaces, Lit (BS # ''href{mailto:''), braced 1],
     seqs [Lit ''Email:'', Spaces, mail_address],
     mail_address]"

definition phone_chars :: rx where
  \<comment> \<open>\<open>[+\d\s\-()]\<close>\<close>
  "phone_chars = Cls False [One CHR ''+'', Digit, Space, One CHR ''-'', One CHR ''('', One CHR '')'']"

definition phone_sep :: rx where
  \<comment> \<open>\<open>[-.\s]?\<close>\<close>
  "phone_sep = Opt (Cls False [One CHR ''-'', One CHR ''.'', Space])"

definition phonePatterns :: "rx list" where
  "phonePatterns =
    [Seq (Lit (BS # ''phone{'')) (braced 1),
     seqs [Lit (BS # ''phone[''), Star (Not '']''), Lit '']{'', braced 1],
     seqs [Lit (BS # ''faPhone''), Opt (Lit [BS]), Spaces, Group 1 (Plus phone_chars)],
     seqs [Lit (BS # ''raisebox{''), Star (Not ''}''), Lit (''}'' @ BS # ''faPhone''), Opt (Lit [BS]), Spaces,
           Group 1 (Plus phone_chars)],
     Group 1 (seqs [Lit ''+91'', Spaces, Times 5 (Cls False [Digit]), Spaces, Times 5 (Cls False [Digit])]),
     Group 1 (seqs [Opt (Lit ''+''), Opt (Lit ''1''), phone_sep, Opt (Lit ''(''), Times 3 digit,
                    Opt (Lit '')''), phone_sep, Times 3 digit, phone_sep, Times 4 digit])]"

definition addressPatterns :: "rx list" where
  "addressPatterns =
    [Seq (Lit (BS # ''address{'')) (braced 1),
     Seq (Lit (BS # ''location{'')) (braced 1)]"

definition handle :: rx where
  \<comment> \<open>\<open>([^}\s]+)\<close>\<close>
  "handle = Group 1 (Plus (Cls True [One CHR ''}'', Space]))"

definition linkedinPatterns :: "rx list" where
  "linkedinPatterns =
    [Seq (Lit (BS # ''social[linkedin]{'')) (braced 1),
     Seq (Lit (BS # ''linkedin{'')) (braced 1),
     seqs [Lit (BS # ''faLinkedin''), Opt (Lit [BS]), Spaces, Lit (BS # ''underline{''), braced 1],
     seqs [Lit (BS # ''href{http''), Opt (Lit ''s''), Lit ''://linkedin.com/in/'', braced 1],
     seqs [Lit ''LinkedIn:'', Spaces, Lit ''linkedin.com/in/'', handle],
     seqs [Lit ''linkedin.com/in/'', handle]]"

definition githubPatterns :: "rx list" where
  "githubPatterns =
    [seqs [Lit (BS # ''faGithub''), Opt (Lit [BS]), Spaces, Lit (BS # ''underline{''), braced 1],
     seqs [Lit (BS # ''href{http''), Opt (Lit ''s''), Lit ''://github.com/'', braced 1],
     seqs [Lit ''GitHub:'', Spaces, Lit ''github.com/'', handle],
     seqs [Lit ''github.com/'', handle]]"

definition extractContact :: "string \<Rightarrow> contact" where
  "extractContact latex =
     \<lparr>email = first_match emailPatterns latex,
      phone = map_option trim (first_match phonePatterns latex),
      address = first_match addressPatterns latex,
      linkedin = first_match linkedinPatterns latex,
      github = first_match githubPatterns latex\<rparr>"

subsection \<open>Sections\<close>

definition sectionPattern :: rx where
  \<comment> \<open>\<open>/\\section\*?\{([^}]+)\}([\s\S]*?)(?=\\section|\\end\{document\}|$)/g\<close>\<close>
  "sectionPattern =
     seqs [Lit (BS # ''section''), Opt (Lit ''*''), Lit ''{'', braced 1, Group 2 (StarLazy Any),
           Look (alts [Lit (BS # ''section''), Lit (BS # ''end{document}''), Eos])]"

definition subsectionPattern :: rx where
  \<comment> \<open>\<open>/\\subsection\*?\{([^}]+)\}([\s\S]*?)(?=\\(?:sub)?section|\\end\{document\}|$)/g\<close>\<close>
  "subsectionPattern =
     seqs [Lit (BS # ''subsection''), Opt (Lit ''*''), Lit ''{'', braced 1, Group 2 (StarLazy Any),
           Look (alts [seqs [Lit [BS], Opt (Lit ''sub''), Lit ''section''], Lit (BS # ''end{document}''), Eos])]"

definition section_of :: "caps \<Rightarrow> raw_section" where
  "section_of c = \<lparr>title = grp_or_empty c 1, content = trim (grp_or_empty c 2)\<rparr>"

definition extractAllSections :: "string \<Rightarrow> raw_section list" where
  "extractAllSections latex =
     map section_of (rx_exec_all sectionPattern latex) @ map section_of (rx_exec_all subsectionPattern latex)"

subsection \<open>Experience\<close>

definition resumeSubheading :: rx where
  \<comment> \<open>\<open>/\\resumeSubheading\s*\{([^}]*)\}\s*\{([^}]*)\}\s*\{([^}]*)\}\s*\{([^}]*)\}/g\<close>\<close>
  "resumeSubheading =
     seqs [Lit (BS # ''resumeSubheading''), Spaces, arg 1, Spaces, arg 2, Spaces, arg 3, Spaces, arg 4]"

definition cventry :: rx where
  "cventry = seqs [Lit (BS # ''cventry''), arg 1, arg 2, arg 3, arg 4, arg 5]"

definition job_macro :: rx where
  "job_macro =
     seqs [Lit [BS], alts [Lit ''experience'', Lit ''job'', Lit ''position''], arg 1, arg 2, arg 3, arg 4]"

definition bold_italic_years :: rx where
  \<comment> \<open>\<open>/\\textbf\{([^}]+)\}[\s\S]*?\\textit\{([^}]+)\}[\s\S]*?([0-9]{4}[\-\s]*[0-9]{4}|Present|Current)/g\<close>\<close>
  "bold_italic_years =
     seqs [Lit (BS # ''textbf{''), braced 1, StarLazy Any, Lit (BS # ''textit{''), braced 2, StarLazy Any,
           Group 3 (alts [seqs [Times 4 digit, Star (Cls False [One CHR ''-'', Space]), Times 4 digit],
                          Lit ''Present'', Lit ''Current''])]"

definition from_resumeSubheading :: "caps \<Rightarrow> experience_entry" where
  "from_resumeSubheading c =
     \<lparr>company = Some (grp_or_empty c 1), period = Some (grp_or_empty c 2),
      position = Some (grp_or_empty c 3), location = Some (grp_or_empty c 4), details = None\<rparr>"

definition from_cventry :: "caps \<Rightarrow> experience_entry" where
  "from_cventry c =
     \<lparr>company = Some (grp_or_empty c 3), period = Some (grp_or_empty c 1),
      position = Some (grp_or_empty c 2), location = Some (grp_or_empty c 4),
      details = Some (grp_or_empty c 5)\<rparr>"

definition from_other :: "caps \<Rightarrow> experience_entry" where
  "from_other c =
     \<lparr>company = Some (grp_or_empty c 2), period = Some (grp_or_empty c 3),
      position = Some (grp_or_empty c 1), location = Some (grp_or_empty c 4), details = None\<rparr>"

definition structured_experience :: "string \<Rightarrow> experience_entry list" where
  \<comment> \<open>the loop over the four patterns, each run over the whole section\<close>
  "structured_experience sectionContent =
     map from_resumeSubheading (rx_exec_all resumeSubheading sectionContent)
     @ map from_cventry (rx_exec_all cventry sectionContent)
     @ map from_other (rx_exec_all job_macro sectionContent)
     @ map from_other (rx_exec_all bold_italic_years sectionContent)"

definition empty_entry :: experience_entry where
  \<comment> \<open>\<open>currentExp = {}\<close>\<close>
  "empty_entry = \<lparr>company = None, period = None, position = None, location = None, details = None\<rparr>"

definition year :: rx where
  "year = Times 4 digit"

definition role_words :: rx where
  "role_words =
     alts [Lit ''Engineer'', Lit ''Developer'', Lit ''Manager'', Lit ''Analyst'', Lit ''Designer'',
           Lit ''Intern'', Lit ''Organizer'', Lit ''Participant'']"

definition classify_line :: "string \<Rightarrow> experience_entry \<Rightarrow> experience_entry" where
  \<comment> \<open>the \<open>if\<close> chain on one non-empty cleaned line\<close>
  "classify_line cleanLine currentExp =
     (if rx_test False year cleanLine then currentExp\<lparr>period := Some cleanLine\<rparr>
      else if rx_test True role_words cleanLine then currentExp\<lparr>position := Some cleanLine\<rparr>
      else if truthy (position currentExp) \<and> \<not> truthy (company currentExp)
           then currentExp\<lparr>company := Some cleanLine\<rparr>
      else currentExp)"

fun heuristic_experience :: "string list \<Rightarrow> experience_entry \<Rightarrow> experience_entry list" where
  \<comment> \<open>the loop over the lines; an entry is pushed once it has a position and a company\<close>
  "heuristic_experience [] currentExp = []"
| "heuristic_experience (line # lines) currentExp =
     (let cleanLine = clean_line line in
      if 0 < length cleanLine
      then (let currentExp = classify_line cleanLine currentExp in
            if truthy (position currentExp) \<and> truthy (company currentExp)
            then currentExp # heuristic_experience lines empty_entry
            else heuristic_experience lines currentExp)
      else heuristic_experience lines currentExp)"

definition parseExperienceSection :: "string \<Rightarrow> experience_entry list" where
  "parseExperienceSection sectionContent =
     (let experiences = structured_experience sectionContent in
      if length experiences = 0 then heuristic_experience (split_on NL sectionContent) empty_entry
      else experiences)"

subsection \<open>Education\<close>

definition education_macro :: rx where
  "education_macro = seqs [Lit (BS # ''education''), arg 1, arg 2, arg 3, arg 4]"

definition education_of :: "caps \<Rightarrow> education_entry" where
  "education_of c =
     \<lparr>edu_period = grp_or_empty c 1, degree = grp_or_empty c 2, institution = grp_or_empty c 3,
      edu_location = grp_or_empty c 4, gpa = grp_or_empty c 5\<rparr>"

definition degree_words :: rx where
  "degree_words =
     alts [Lit ''Bachelor'', Lit ''Master'', Lit ''PhD'', Lit ''Degree'', Lit ''University'', Lit ''College'']"

definition degree_line :: "string \<Rightarrow> education_entry list" where
  "degree_line line =
     (let cleanLine = clean_line_plain line in
      if rx_test True degree_words cleanLine
      then [\<lparr>edu_period = [], degree = cleanLine, institution = [], edu_location = [], gpa = []\<rparr>]
      else [])"

definition parseEducationSection :: "string \<Rightarrow> education_entry list" where
  "parseEducationSection sectionContent =
     (let found = map education_of (rx_exec_all cventry sectionContent)
                      @ map education_of (rx_exec_all education_macro sectionContent) in
      if length found = 0 then concat (map degree_line (split_on NL sectionContent))
      else found)"

subsection \<open>Skills\<close>

definition cvitem :: rx where
  "cvitem = seqs [Lit (BS # ''cvitem''), arg 1, arg 2]"

definition skill_macro :: rx where
  "skill_macro = seqs [Lit (BS # ''skill''), arg 1, arg 2]"

definition skill_of :: "caps \<Rightarrow> skill_group" where
  "skill_of c = \<lparr>category = grp_or_empty c 1, items = grp_or_empty c 2\<rparr>"

definition tabularPattern :: rx where
  \<comment> \<open>\<open>/\\begin\{tabularx\}[\s\S]*?\\textbf\{([^}]+)\}:\s*([^&\\]+)(?:\s*&\s*\\textbf\{([^}]+)\}:\s*([^&\\]+))?/g\<close>\<close>
  "tabularPattern =
     seqs [Lit (BS # ''begin{tabularx}''), StarLazy Any, Lit (BS # ''textbf{''), braced 1, Lit '':'', Spaces,
           Group 2 (Plus (Not (''&'' @ [BS]))),
           Opt (seqs [Spaces, Lit ''&'', Spaces, Lit (BS # ''textbf{''), braced 3, Lit '':'', Spaces,
                      Group 4 (Plus (Not (''&'' @ [BS])))])]"

definition tabular_skills :: "caps \<Rightarrow> skill_group list" where
  "tabular_skills c =
     (if truthy (grp c 1) \<and> truthy (grp c 2)
      then [\<lparr>category = trim (grp_or_empty c 1), items = trim (grp_or_empty c 2)\<rparr>] else [])
     @ (if truthy (grp c 3) \<and> truthy (grp c 4)
        then [\<lparr>category = trim (grp_or_empty c 3), items = trim (grp_or_empty c 4)\<rparr>] else [])"

definition itemizePattern :: rx where
  "itemizePattern = seqs [Lit (BS # ''begin{itemize}''), Group 1 (StarLazy Any), Lit (BS # ''end{itemize}'')]"

definition item_text :: rx where
  \<comment> \<open>\<open>/\\item\s+([^\\\n]+)/g\<close>, the whole match kept as group 0\<close>
  "item_text = Group 0 (seqs [Lit (BS # ''item''), Plus (Cls False [Space]), Group 1 (Plus (Not [BS, NL]))])"

definition item_head :: rx where
  \<comment> \<open>\<open>/\\item\s+/\<close>\<close>
  "item_head = Seq (Lit (BS # ''item'')) (Plus (Cls False [Space]))"

fun rx_replace_first :: "rx \<Rightarrow> string \<Rightarrow> string \<Rightarrow> string" where
  \<comment> \<open>\<open>s.replace(/r/, rep)\<close> without the \<open>g\<close> flag\<close>
  "rx_replace_first r rep [] = (case match_here False r [] of Some (rest, c) \<Rightarrow> rep | None \<Rightarrow> [])"
| "rx_replace_first r rep (x # xs) =
     (case match_here False r (x # xs) of
        Some (rest, c) \<Rightarrow> rep @ rest
      | None \<Rightarrow> x # rx_replace_first r rep xs)"

definition itemize_skills :: "caps \<Rightarrow> skill_group list" where
  "itemize_skills c =
     (let matched = map (\<lambda>m. grp_or_empty m 0) (rx_exec_all item_text (grp_or_empty c 1)) in
      if matched = [] then []
      else [\<lparr>category = ''Skills'',
             items = join '', '' (map (\<lambda>item. trim (rx_replace_first item_head [] item)) matched)\<rparr>])"

definition customPattern :: rx where
  \<comment> \<open>\<open>/\\textbf\{([^}]+)\}:\s*([^\\]+)/g\<close>\<close>
  "customPattern = seqs [Lit (BS # ''textbf{''), braced 1, Lit '':'', Spaces, Group 2 (Plus (Not [BS]))]"

definition custom_skill :: "caps \<Rightarrow> skill_group" where
  "custom_skill c =
     \<lparr>category = trim (grp_or_empty c 1),
      items = rx_replace (Lit [BS, BS]) [] (trim (grp_or_empty c 2))\<rparr>"

definition colon_line :: "string \<Rightarrow> skill_group list" where
  \<comment> \<open>\<open>parts[0].trim()\<close> and \<open>parts[1] ? parts[1].trim() : ''\<close> of \<open>cleanLine.split(':')\<close>\<close>
  "colon_line line =
     (let cleanLine = clean_line line in
      if str_includes cleanLine '':''
      then (case split_on CHR '':'' cleanLine of
              p0 # p1 # ps \<Rightarrow> [\<lparr>category = trim p0, items = (if p1 \<noteq> [] then trim p1 else [])\<rparr>]
            | [p0] \<Rightarrow> [\<lparr>category = trim p0, items = []\<rparr>]
            | [] \<Rightarrow> [])
      else [])"

definition parseSkillsSection :: "string \<Rightarrow> skill_group list" where
  "parseSkillsSection sectionContent =
     (let found = map skill_of (rx_exec_all cvitem sectionContent)
                   @ map skill_of (rx_exec_all skill_macro sectionContent)
                   @ concat (map tabular_skills (rx_exec_all tabularPattern sectionContent))
                   @ concat (map itemize_skills (rx_exec_all itemizePattern sectionContent))
                   @ map custom_skill (rx_exec_all customPattern sectionContent) in
      if length found = 0 then concat (map colon_line (split_on NL sectionContent))
      else found)"

subsection \<open>Projects\<close>

definition projectHeadingPattern :: rx where
  "projectHeadingPattern = seqs [Lit (BS # ''resumeProjectHeading''), Spaces, arg 1, Spaces, arg 2]"

definition strip_macros :: "string \<Rightarrow> string" where
  \<comment> \<open>\<open>s.replace(/\\[a-zA-Z]+\{?/g, '').replace(/\}/g, '').trim()\<close>\<close>
  "strip_macros s = clean_line_plain s"

definition unbold :: "string \<Rightarrow> string" where
  \<comment> \<open>\<open>s.replace(/\\textbf\{([^}]+)\}/g, '$1')\<close>\<close>
  "unbold s = rx_replace_from False (Seq (Lit (BS # ''textbf{'')) (braced 1)) (\<lambda>c. grp_or_empty c 1) 0 s"

definition heading_project :: "caps \<Rightarrow> project_entry" where
  "heading_project c =
     \<lparr>name = strip_macros (unbold (grp_or_empty c 1)),
      date = Some (strip_macros (grp_or_empty c 2)),
      description = []\<rparr>"

definition itemPattern :: rx where
  \<comment> \<open>\<open>/\\item\s+\\textbf\{([^}]+)\}\s*([\s\S]*?)(?=\\item|\\end\{itemize\}|$)/g\<close>\<close>
  "itemPattern =
     seqs [Lit (BS # ''item''), Plus (Cls False [Space]), Lit (BS # ''textbf{''), braced 1, Spaces,
           Group 2 (StarLazy Any),
           Look (alts [Lit (BS # ''item''), Lit (BS # ''end{itemize}''), Eos])]"

definition item_project :: "caps \<Rightarrow> project_entry" where
  "item_project c =
     \<lparr>name = trim (grp_or_empty c 1), date = None,
      description = take 200 (strip_macros (grp_or_empty c 2))\<rparr>"

definition line_project :: "string \<Rightarrow> project_entry list" where
  "line_project line =
     (let cleanLine = clean_line line in
      if 10 < length cleanLine \<and> \<not> str_includes cleanLine ''resumeItem''
      then [\<lparr>name = cleanLine, date = None, description = []\<rparr>]
      else [])"

definition parseProjectsSection :: "string \<Rightarrow> project_entry list" where
  "parseProjectsSection sectionContent =
     (let found = map heading_project (rx_exec_all projectHeadingPattern sectionContent);
          found = (if length found = 0 then map item_project (rx_exec_all itemPattern sectionContent)
                   else found)
      in if length found = 0 then concat (map line_project (split_on NL sectionContent))
         else found)"

subsection \<open>The resume model\<close>

definition any_of :: "string \<Rightarrow> string list \<Rightarrow> bool" where
  \<comment> \<open>\<open>lowerTitle.includes(a) || lowerTitle.includes(b) || ...\<close>\<close>
  "any_of lowerTitle words = list_ex (str_includes lowerTitle) words"

definition categorize :: "resume \<Rightarrow> raw_section \<Rightarrow> resume" where
  \<comment> \<open>the body of \<open>allSections.forEach\<close>: the first category whose words the title has\<close>
  "categorize sections sec =
     (let lowerTitle = toLowerCase (title sec) in
      if any_of lowerTitle [''summary'', ''objective'', ''profile'']
      then sections\<lparr>summary := content sec\<rparr>
      else if any_of lowerTitle [''experience'', ''work'', ''employment'']
      then sections\<lparr>experience := parseExperienceSection (content sec)\<rparr>
      else if any_of lowerTitle [''education'', ''academic'']
      then sections\<lparr>education := parseEducationSection (content sec)\<rparr>
      else if any_of lowerTitle [''skill'', ''technical'', ''competenc'']
      then sections\<lparr>skills := parseSkillsSection (content sec)\<rparr>
      else if any_of lowerTitle [''project'']
      then sections\<lparr>projects := parseProjectsSection (content sec)\<rparr>
      else if any_of lowerTitle [''achievement'', ''award'', ''honor'']
      then sections\<lparr>achievements := parseProjectsSection (content sec)\<rparr>
      else sections)"

definition parseLatexContent :: "string \<Rightarrow> resume" where
  "parseLatexContent latex =
     (let allSections = extractAllSections latex;
          sections = \<lparr>resume_name = extractName latex, resume_title = extractTitle latex,
                      resume_contact = extractContact latex, summary = [], experience = [],
                      education = [], skills = [], projects = [], achievements = [],
                      rawSections = allSections\<rparr>
      in foldl categorize sections allSections)"

section \<open>The fallback document renderer\<close>

text \<open>
  The PDF library is a parameter. A document is the list of the texts placed on it, each
  with its position and the font set at that moment; how a text is wrapped to a width and
  how the document is serialised is the library's business.
\<close>

record text_op =
  shown :: string
  at_x :: nat
  at_y :: nat
  in_size :: nat
  in_font :: string
  in_style :: string

record pdf_doc =
  fontSize :: nat
  fontName :: string
  fontStyle :: string
  page :: "text_op list"

record jspdf =
  splitTextToSize :: "pdf_doc \<Rightarrow> string \<Rightarrow> nat \<Rightarrow> string list"
  output_arraybuffer :: "pdf_doc \<Rightarrow> bytes"   \<comment> \<open>\<open>doc.output('arraybuffer')\<close>\<close>

definition new_jsPDF :: pdf_doc where
  \<comment> \<open>\<open>new jsPDF()\<close>: the library's defaults\<close>
  "new_jsPDF = \<lparr>fontSize = 16, fontName = ''helvetica'', fontStyle = ''normal'', page = []\<rparr>"

record cursor =
  doc :: pdf_doc
  yPos :: nat

definition steps :: "(cursor \<Rightarrow> cursor) list \<Rightarrow> cursor \<Rightarrow> cursor" where
  \<comment> \<open>statements in sequence\<close>
  "steps fs c = foldl (\<lambda>c f. f c) c fs"

definition setFontSize :: "nat \<Rightarrow> cursor \<Rightarrow> cursor" where
  "setFontSize n c = c\<lparr>doc := (doc c)\<lparr>fontSize := n\<rparr>\<rparr>"

definition setFont :: "string \<Rightarrow> string \<Rightarrow> cursor \<Rightarrow> cursor" where
  "setFont nm st c = c\<lparr>doc := (doc c)\<lparr>fontName := nm, fontStyle := st\<rparr>\<rparr>"

definition text_at :: "string \<Rightarrow> nat \<Rightarrow> cursor \<Rightarrow> cursor" where
  \<comment> \<open>\<open>doc.text(s, 20, y)\<close>\<close>
  "text_at s line_y c =
     c\<lparr>doc := (doc c)\<lparr>page := page (doc c) @
        [\<lparr>shown = s, at_x = 20, at_y = line_y, in_size = fontSize (doc c),
          in_font = fontName (doc c), in_style = fontStyle (doc c)\<rparr>]\<rparr>\<rparr>"

definition down :: "nat \<Rightarrow> cursor \<Rightarrow> cursor" where
  \<comment> \<open>\<open>yPos += n\<close>\<close>
  "down n c = c\<lparr>yPos := yPos c + n\<rparr>"

definition draw_text :: "string \<Rightarrow> nat \<Rightarrow> cursor \<Rightarrow> cursor" where
  \<comment> \<open>\<open>doc.text(s, 20, yPos); yPos += n\<close>\<close>
  "draw_text s n c = down n (text_at s (yPos c) c)"

definition wrapped :: "jspdf \<Rightarrow> string \<Rightarrow> cursor \<Rightarrow> cursor" where
  \<comment> \<open>\<open>doc.splitTextToSize(s, 170).forEach(line => { doc.text(line, 20, yPos); yPos += 6 })\<close>\<close>
  "wrapped lib s c = steps (map (\<lambda>line. draw_text line 6) (splitTextToSize lib (doc c) s 170)) c"

definition heading :: "string \<Rightarrow> cursor \<Rightarrow> cursor" where
  "heading s = steps [setFontSize 12, setFont ''helvetica'' ''bold'', draw_text s 10]"

definition only_if :: "bool \<Rightarrow> (cursor \<Rightarrow> cursor) \<Rightarrow> cursor \<Rightarrow> cursor" where
  "only_if b f c = (if b then f c else c)"

definition draw_contact :: "contact \<Rightarrow> cursor \<Rightarrow> cursor" where
  "draw_contact ct =
     steps [setFontSize 10,
            only_if (truthy (email ct)) (draw_text (''Email: '' @ or_empty (email ct)) 8),
            only_if (truthy (phone ct)) (draw_text (''Phone: '' @ or_empty (phone ct)) 8),
            only_if (truthy (address ct)) (draw_text (''Location: '' @ or_empty (address ct)) 12)]"

definition draw_experience :: "experience_entry \<Rightarrow> cursor \<Rightarrow> cursor" where
  "draw_experience exp =
     steps [setFontSize 10, setFont ''helvetica'' ''bold'', draw_text (or_empty (position exp)) 8,
            setFontSize 9, setFont ''helvetica'' ''normal'',
            draw_text (or_empty (company exp) @ '', '' @ or_empty (location exp) @ '' | '' @ or_empty (period exp)) 12]"

definition draw_education :: "education_entry \<Rightarrow> cursor \<Rightarrow> cursor" where
  "draw_education edu =
     steps [setFontSize 10, setFont ''helvetica'' ''bold'', draw_text (degree edu) 8,
            setFontSize 9, setFont ''helvetica'' ''normal'',
            draw_text (institution edu @ '', '' @ edu_location edu @ '' | '' @ edu_period edu
                   @ (if gpa edu \<noteq> [] then '' | '' @ gpa edu else [])) 12]"

definition draw_skill :: "jspdf \<Rightarrow> skill_group \<Rightarrow> cursor \<Rightarrow> cursor" where
  "draw_skill lib skill =
     steps [setFontSize 9, setFont ''helvetica'' ''normal'',
            wrapped lib (category skill @ '': '' @ items skill), down 2]"

definition draw_project :: "jspdf \<Rightarrow> project_entry \<Rightarrow> cursor \<Rightarrow> cursor" where
  "draw_project lib project =
     steps [setFontSize 10, setFont ''helvetica'' ''bold'', draw_text (name project) 8,
            only_if (description project \<noteq> [])
              (steps [setFontSize 9, setFont ''helvetica'' ''normal'', wrapped lib (description project)]),
            down 5]"

definition already_processed :: "string \<Rightarrow> bool" where
  "already_processed lowerTitle =
     any_of lowerTitle [''summary'', ''experience'', ''education'', ''skill'', ''project'',
                        ''achievement'', ''award'', ''honor'']"

definition draw_raw_section :: "jspdf \<Rightarrow> raw_section \<Rightarrow> cursor \<Rightarrow> cursor" where
  "draw_raw_section lib sec c =
     (if already_processed (toLowerCase (title sec)) then c
      else if 250 < yPos c then c
      else steps [heading (toUpperCase (title sec)),
                  setFontSize 9, setFont ''helvetica'' ''normal'',
                  (\<lambda>c. steps (map (\<lambda>line. only_if (0 < length (trim line)) (draw_text line 6))
                                (take 3 (splitTextToSize lib (doc c)
                                           (take 200 (clean_line_plain (content sec))) 170))) c),
                  down 8] c)"

definition generatePDFWithPDFKit :: "jspdf \<Rightarrow> resume \<Rightarrow> pdf_doc" where
  "generatePDFWithPDFKit lib sections =
     doc (steps
       [setFontSize 20, setFont ''helvetica'' ''bold'',
        draw_text (if resume_name sections \<noteq> [] then resume_name sections else ''Resume Preview'') 15,
        only_if (resume_title sections \<noteq> [])
          (steps [setFontSize 14, setFont ''helvetica'' ''normal'', draw_text (resume_title sections) 12]),
        draw_contact (resume_contact sections),
        only_if (summary sections \<noteq> [])
          (steps [down 5, heading ''PROFESSIONAL SUMMARY'', setFontSize 9, setFont ''helvetica'' ''normal'',
                  wrapped lib (summary sections), down 8]),
        only_if (0 < length (experience sections))
          (steps (heading ''PROFESSIONAL EXPERIENCE'' # map draw_experience (take 3 (experience sections)))),
        only_if (0 < length (education sections))
          (steps (heading ''EDUCATION'' # map draw_education (take 2 (education sections)))),
        only_if (0 < length (skills sections))
          (steps (heading ''TECHNICAL SKILLS'' # map (draw_skill lib) (skills sections))),
        only_if (0 < length (projects sections))
          (steps (heading ''PROJECTS'' # map (draw_project lib) (take 3 (projects sections)))),
        only_if (0 < length (achievements sections))
          (\<lambda>c. only_if (yPos c < 250)
                 (steps (heading ''ACHIEVEMENTS'' # map (draw_project lib) (take 3 (achievements sections)))) c),
        steps (map (draw_raw_section lib) (rawSections sections))]
       \<lparr>doc = new_jsPDF, yPos = 20\<rparr>)"

definition createErrorPDF :: "jspdf \<Rightarrow> string \<Rightarrow> pdf_doc" where
  \<comment> \<open>\<open>createErrorPDF\<close> of \<open>src/app/api/compile/route.ts\<close>\<close>
  "createErrorPDF lib errorMessage =
     doc (steps
       [setFontSize 16, setFont ''helvetica'' ''bold'', text_at ''LaTeX Compilation Error'' 30,
        setFontSize 12, setFont ''helvetica'' ''normal'',
        (\<lambda>c. steps (map (\<lambda>line. draw_text line 8) (splitTextToSize lib (doc c) errorMessage 170)) c),
        setFontSize 10,
        (\<lambda>c. text_at ''Please check your LaTeX syntax and try again.'' (yPos c + 20) c)]
       \<lparr>doc = new_jsPDF, yPos = 50\<rparr>)"

section \<open>The compile entry point\<close>

record CompilationResult =
  success :: bool
  pdfBuffer :: "bytes option"
  errors :: "string list option"
  warnings :: "string list option"
  logs :: "string list option"

record run =
  returned :: CompilationResult
  network_calls :: "request list"

definition generateSamplePDF :: "jspdf \<Rightarrow> network \<Rightarrow> string \<Rightarrow> bytes \<times> request list" where
  \<comment> \<open>the full compile route: the real document when it is over the floor, else parse and render\<close>
  "generateSamplePDF lib net latexContent =
     (let (realPDF, cs) = compileLatexToPDF net latexContent in
      case realPDF of
        Some pdf \<Rightarrow>
          if 1000 < length pdf then (pdf, cs)
          else (output_arraybuffer lib (generatePDFWithPDFKit lib (parseLatexContent latexContent)), cs)
      | None \<Rightarrow> (output_arraybuffer lib (generatePDFWithPDFKit lib (parseLatexContent latexContent)), cs))"

definition compilation_failed :: string where
  "compilation_failed = ''LaTeX compilation failed. Please check your LaTeX syntax or try again later.''"

definition generateSamplePDF_route :: "jspdf \<Rightarrow> network \<Rightarrow> string \<Rightarrow> bytes \<times> request list" where
  \<comment> \<open>\<open>src/app/api/compile/route.ts\<close>: the real document, else the error document\<close>
  "generateSamplePDF_route lib net latexContent =
     (let (realPDF, cs) = compileLatexToPDF_route net latexContent in
      case realPDF of
        Some pdf \<Rightarrow> (pdf, cs)
      | None \<Rightarrow> (output_arraybuffer lib (createErrorPDF lib compilation_failed), cs))"

definition count_char :: "char \<Rightarrow> string \<Rightarrow> nat" where
  \<comment> \<open>\<open>(content.match(/c/g) || []).length\<close> for a one-character pattern\<close>
  "count_char c s = length (filter (\<lambda>d. d = c) s)"

fun decimal :: "nat \<Rightarrow> string" where
  \<comment> \<open>a non-negative integer in a template string\<close>
  "decimal n = (if n < 10 then [''0123456789'' ! n] else decimal (n div 10) @ [''0123456789'' ! (n mod 10)])"

declare decimal.simps [simp del]

definition failure :: "string \<Rightarrow> run" where
  \<comment> \<open>\<open>return { success: false, errors: [message] }\<close>, before any request\<close>
  "failure message =
     \<lparr>returned = \<lparr>success = False, pdfBuffer = None, errors = Some [message], warnings = None, logs = None\<rparr>,
      network_calls = []\<rparr>"

definition abs_diff :: "nat \<Rightarrow> nat \<Rightarrow> nat" where
  \<comment> \<open>\<open>Math.abs(a - b)\<close>\<close>
  "abs_diff a b = (if a < b then b - a else a - b)"

definition simulateLatexCompilation_with ::
  "(network \<Rightarrow> string \<Rightarrow> bytes \<times> request list) \<Rightarrow> network \<Rightarrow> string \<Rightarrow> run" where
  \<comment> \<open>\<open>simulateLatexCompilation\<close>, the same text in both routes, over the \<open>generateSamplePDF\<close> of each\<close>
  "simulateLatexCompilation_with generate net content' =
     (if \<not> str_includes content' (BS # ''documentclass'')
      then failure (''Missing '' @ BS # ''documentclass declaration'')
      else if \<not> str_includes content' (BS # ''begin{document}'')
      then failure (''Missing '' @ BS # ''begin{document}'')
      else if \<not> str_includes content' (BS # ''end{document}'')
      then failure (''Missing '' @ BS # ''end{document}'')
      else (let openBraces = count_char CHR ''{'' content'; closeBraces = count_char CHR ''}'' content' in
            if openBraces \<noteq> closeBraces
            then failure (''Mismatched braces: '' @ decimal (abs_diff openBraces closeBraces) @ '' unmatched'')
            else (let (pdf, cs) = generate net content' in
                  \<lparr>returned = \<lparr>success = True, pdfBuffer = Some pdf, errors = None, warnings = Some [],
                                logs = Some [''LaTeX compilation successful'']\<rparr>,
                   network_calls = cs\<rparr>)))"

definition simulateLatexCompilation :: "jspdf \<Rightarrow> network \<Rightarrow> string \<Rightarrow> run" where
  "simulateLatexCompilation lib = simulateLatexCompilation_with (generateSamplePDF lib)"

definition simulateLatexCompilation_route :: "jspdf \<Rightarrow> network \<Rightarrow> string \<Rightarrow> run" where
  "simulateLatexCompilation_route lib = simulateLatexCompilation_with (generateSamplePDF_route lib)"

section \<open>The validator as the specification words it\<close>

definition violations :: "string \<Rightarrow> string list" where
  \<comment> \<open>the four checks of the specification, all run, every violation collected in order\<close>
  "violations source =
     (if \<not> str_includes source (BS # ''documentclass'')
      then [''Missing '' @ BS # ''documentclass declaration''] else [])
     @ (if \<not> str_includes source (BS # ''begin{document}'')
        then [''Missing '' @ BS # ''begin{document}''] else [])
     @ (if \<not> str_includes source (BS # ''end{document}'')
        then [''Missing '' @ BS # ''end{document}''] else [])
     @ (if count_char CHR ''{'' source \<noteq> count_char CHR ''}'' source
        then [''Mismatched braces: ''
              @ decimal (abs_diff (count_char CHR ''{'' source) (count_char CHR ''}'' source))
              @ '' unmatched''] else [])"

section \<open>Sample environments\<close>

definition sample_jspdf :: jspdf where
  \<comment> \<open>a library that never wraps and writes a four-byte header before the texts\<close>
  "sample_jspdf =
     \<lparr>splitTextToSize = (\<lambda>d s w. [s]),
      output_arraybuffer = (\<lambda>d. [0x25, 0x50, 0x44, 0x46] @ map (\<lambda>c. of_nat (of_char c)) (concat (map shown (page d))))\<rparr>"

definition offline :: network where
  \<comment> \<open>every request is rejected after 10 ms\<close>
  "offline req = (10, Rejected)"

definition untyped_network :: network where
  \<comment> \<open>only the alternative service answers: 1001 bytes, declared as HTML\<close>
  "untyped_network req =
     (if endpoint req = AslushnikovPost
      then (100, Resolved \<lparr>ok = True, content_type = Some ''text/html'', arrayBuffer = replicate 1001 0\<rparr>)
      else (100, Resolved \<lparr>ok = False, content_type = None, arrayBuffer = []\<rparr>))"

definition minimal_document :: string where
  "minimal_document =
     BS # ''documentclass{article}'' @ NL # BS # ''begin{document}'' @ NL # ''Hello''
     @ NL # BS # ''end{document}''"

definition joined_macro :: string where
  \<comment> \<open>an icon macro with a \<open>raisebox\<close> in the middle of its name\<close>
  "joined_macro = BS # ''fa'' @ BS # ''raisebox{a}Phone''"

definition joined_macro_route :: string where
  "joined_macro_route = BS # ''fa'' @ BS # ''addtolength{a}{b}Phone''"

definition commented_raisebox :: string where
  \<comment> \<open>a commented-out line with an unclosed \<open>raisebox\<close> and a package import, then a bold text\<close>
  "commented_raisebox =
     ''% '' @ BS # ''raisebox{'' @ BS # ''usepackage{fontawesome5}'' @ NL # BS # ''textbf{MARK}''"

definition commented_addtolength :: string where
  "commented_addtolength =
     ''% '' @ BS # ''addtolength{a}{'' @ BS # ''usepackage{marvosym}'' @ NL # BS # ''textbf{MARK}''"

definition acme_macro :: string where
  "acme_macro = BS # ''resumeSubheading{Acme Corp}{2020-2022}{Engineer}{NYC}''"

definition acme_entry :: experience_entry where
  "acme_entry =
     \<lparr>company = Some ''Acme Corp'', period = Some ''2020-2022'', position = Some ''Engineer'',
      location = Some ''NYC'', details = None\<rparr>"

definition classified_experience :: "raw_section \<Rightarrow> bool" where
  \<comment> \<open>the section reaches the experience branch of \<open>categorize\<close>\<close>
  "classified_experience sec =
     (\<not> any_of (toLowerCase (title sec)) [''summary'', ''objective'', ''profile'']
      \<and> any_of (toLowerCase (title sec)) [''experience'', ''work'', ''employment''])"

definition acme_resume :: string where
  \<comment> \<open>the experience section with the structured entry, then the education\<close>
  "acme_resume =
     BS # ''section{Work Experience}Jobs: '' @ acme_macro @ '' done'' @ NL #
     BS # ''section{Education}MIT''"

definition two_work_sections :: string where
  \<comment> \<open>the experience section with the structured entry, then a section on volunteer work\<close>
  "two_work_sections =
     BS # ''section{Experience}'' @ acme_macro @ NL #
     BS # ''section{Volunteer Work}Helped out''"

definition blank_center_name :: string where
  \<comment> \<open>a \<open>center\<close> environment whose large text is a single space\<close>
  "blank_center_name = BS # ''begin{center}{'' @ BS # ''Huge }'' @ BS # ''end{center}''"

section \<open>The order of code units, bit by bit\<close>

text \<open>
  Comparing two code units through their numbers is slow to evaluate. The same order is the
  lexicographic one on their bits, the most significant first; \<open>in_range\<close> is evaluated with it.
\<close>

fun bits :: "char \<Rightarrow> bool list" where
  "bits (Char b0 b1 b2 b3 b4 b5 b6 b7) = [b7, b6, b5, b4, b3, b2, b1, b0]"

fun lex_le :: "bool list \<Rightarrow> bool list \<Rightarrow> bool" where
  "lex_le [] bs = True"
| "lex_le (a # as) [] = False"
| "lex_le (a # as) (b # bs) = (if a = b then lex_le as bs else b)"

fun bits_value :: "bool list \<Rightarrow> nat" where
  "bits_value [] = 0"
| "bits_value (b # bs) = of_bool b * 2 ^ length bs + bits_value bs"

definition appends :: "(cursor \<Rightarrow> cursor) \<Rightarrow> bool" where
  \<comment> \<open>a drawing step leaves the texts already on the page where they are\<close>
  "appends f = (\<forall>c. \<exists>ops. page (doc (f c)) = page (doc c) @ ops)"

definition header_op :: "string \<Rightarrow> text_op" where
  \<comment> \<open>the header name: 20 pt bold at the top left\<close>
  "header_op s =
     \<lparr>shown = s, at_x = 20, at_y = 20, in_size = 20, in_font = ''helvetica'', in_style = ''bold''\<rparr>"

definition unacceptable :: "fetch_result \<Rightarrow> bool" where
  \<comment> \<open>a transport error, a status that is not 2xx, or a body at or below the floor\<close>
  "unacceptable r =
     (case r of Rejected \<Rightarrow> True | Resolved resp \<Rightarrow> \<not> ok resp \<or> length (arrayBuffer resp) \<le> 1000)"

definition passes_on :: "(cont \<Rightarrow> cont) \<Rightarrow> bool" where
  \<comment> \<open>a matcher succeeds only through its continuation, on an input that is not longer\<close>
  "passes_on f =
     (\<forall>k s c res. f k s c = Some res \<longrightarrow> (\<exists>s' c'. length s' \<le> length s \<and> k s' c' = Some res))"

fun tails :: "string \<Rightarrow> string list" where
  "tails [] = [[]]"
| "tails (c # cs) = (c # cs) # tails cs"

definition ends_before :: "(rx \<times> string) list \<Rightarrow> string \<Rightarrow> string \<Rightarrow> bool" where
  \<comment> \<open>wherever a pattern of the rule list matches in the source, the marker lies in the rest
      behind the match\<close>
  "ends_before rules marker source =
     list_all (\<lambda>(r, rep).
       list_all (\<lambda>t. case match_here False r t of None \<Rightarrow> True
                                | Some (rest, c) \<Rightarrow> str_includes rest marker) (tails source)) rules"

section \<open>Sources laid out in pieces\<close>

text \<open>
  Every pattern of the simplifier is a chain of literal parts with open parts in between: the
  argument \<open>[^}]*\<close> of a layout command, the optional \<open>5\<close> of the icon package. A source is laid
  out in pieces when it is a chain of plain texts and of constructs written in full. A text is
  plain when, wherever a backslash stands in it, what follows differs from the first literal
  part of every pattern before the text ends: no match can start in it, whatever comes behind.
  An argument of a construct is a text that its open part matches in full, and is plain as well.
\<close>

datatype piece = Plain string | Macro nat "string list"

fun parts :: "rx \<Rightarrow> string list" where
  \<comment> \<open>the literal parts of a pattern, in order\<close>
  "parts (Lit h) = [h]"
| "parts (Seq a b) = parts a @ parts b"
| "parts r = []"

fun gaps :: "rx \<Rightarrow> rx list" where
  \<comment> \<open>the open parts of a pattern, in order\<close>
  "gaps (Lit h) = []"
| "gaps (Seq a b) = gaps a @ gaps b"
| "gaps r = [r]"

definition fits :: "rx \<Rightarrow> string \<Rightarrow> bool" where
  \<comment> \<open>the open part matches the whole of the text\<close>
  "fits g a = (match_here False (Seq g Eos) a \<noteq> None)"

fun written :: "string list \<Rightarrow> string list \<Rightarrow> string" where
  \<comment> \<open>the literal parts with the arguments in between\<close>
  "written (p # ps) (a # as) = p @ a @ written ps as"
| "written ps as = concat ps"

definition heads :: "(rx \<times> string) list \<Rightarrow> string list" where
  \<comment> \<open>the first literal part of every pattern\<close>
  "heads rules = map (\<lambda>(r, rep). hd (parts r)) rules"

definition clash :: "string \<Rightarrow> string \<Rightarrow> bool" where
  \<comment> \<open>the two texts differ at a position that both have\<close>
  "clash h t = (\<not> starts_with h t \<and> \<not> starts_with t h)"

definition quiet :: "string list \<Rightarrow> string \<Rightarrow> bool" where
  "quiet hs s =
     list_all (\<lambda>t. if starts_with [BS] t then list_all (\<lambda>h. clash h t) hs else True) (tails s)"

fun laid_out_piece :: "(rx \<times> string) list \<Rightarrow> string list \<Rightarrow> piece \<Rightarrow> bool" where
  "laid_out_piece rules hs (Plain t) = quiet hs t"
| "laid_out_piece rules hs (Macro k args) =
     (k < length rules \<and> list_all2 fits (gaps (fst (rules ! k))) args \<and> list_all (quiet hs) args)"

definition laid_out :: "(rx \<times> string) list \<Rightarrow> string list \<Rightarrow> piece list \<Rightarrow> bool" where
  \<comment> \<open>\<open>extra\<close>: further texts that no plain text may start or contain\<close>
  "laid_out rules extra pieces = list_all (laid_out_piece rules (extra @ heads rules)) pieces"

fun stage :: "(rx \<times> string) list \<Rightarrow> nat \<Rightarrow> piece \<Rightarrow> string" where
  \<comment> \<open>the text of a piece once the first \<open>n\<close> rules have been applied\<close>
  "stage rules n (Plain t) = t"
| "stage rules n (Macro k args) =
     (if k < n then snd (rules ! k) else written (parts (fst (rules ! k))) args)"

definition staged :: "(rx \<times> string) list \<Rightarrow> nat \<Rightarrow> piece list \<Rightarrow> string" where
  "staged rules n pieces = concat (map (stage rules n) pieces)"

definition source_of :: "(rx \<times> string) list \<Rightarrow> piece list \<Rightarrow> string" where
  \<comment> \<open>the source text: every construct written in full\<close>
  "source_of rules pieces = staged rules 0 pieces"

definition plain_geometry :: "piece list \<Rightarrow> bool" where
  \<comment> \<open>a plain text imports the geometry package without options\<close>
  "plain_geometry pieces =
     list_ex (\<lambda>p. case p of Plain t \<Rightarrow> str_includes t (BS # ''usepackage{geometry}'')
                  | Macro k args \<Rightarrow> False) pieces"

text \<open>
  What the argument needs of a rule list: every pattern starts with a backslash, the rest of
  its literal parts and its replacement are plain, and the first literal parts of two rules
  differ at a position that both have.
\<close>

fun all_clash :: "string list \<Rightarrow> bool" where
  "all_clash [] = True"
| "all_clash (h # hs) = (list_all (clash h) hs \<and> all_clash hs)"

definition tidy :: "(rx \<times> string) list \<Rightarrow> string list \<Rightarrow> bool" where
  "tidy rules hs =
     (list_all (\<lambda>(r, rep). case parts r of
                   [] \<Rightarrow> False
                 | h # ps \<Rightarrow> starts_with [BS] h \<and> quiet hs (tl h) \<and> list_all (quiet hs) ps
                             \<and> quiet hs rep) rules
      \<and> all_clash (heads rules))"

text \<open>Three sources in pieces.\<close>

definition sample_pieces :: "piece list" where
  \<comment> \<open>for the full route: the preamble of the editor's default document with the column
      package, then a phone icon, a raised box and a margin length between the texts\<close>
  "sample_pieces =
     [Plain (BS # ''documentclass[11pt,a4paper]{article}'' @ NL #
             BS # ''usepackage[margin=0.75in]{geometry}'' @ [NL]),
      Macro 7 [],
      Plain (NL # BS # ''begin{document}'' @ NL # BS # ''textbf{A}'' @ [BS, BS, NL]),
      Macro 1 [],
      Plain '' 555 '',
      Macro 5 [''2pt''],
      Macro 9 [''-0.5in''],
      Plain (''MARK'' @ NL # BS # ''end{document}'')]"

definition sample_pieces_class :: "piece list" where
  \<comment> \<open>for the full route, with the class line after which the margin declaration is inserted:
      the page style, the unicode table and a bullet definition between the texts\<close>
  "sample_pieces_class =
     [Plain (BS # ''documentclass[letterpaper,11pt]{article}''),
      Macro 14 [],
      Plain (BS # ''begin{document}''),
      Macro 8 [],
      Plain '' a@b.c '',
      Macro 17 [''$'' @ BS # ''circ$''],
      Plain (''MARK'' @ BS # ''end{document}'')]"

definition sample_pieces_route :: "piece list" where
  \<comment> \<open>for \<open>route.ts\<close>: the icon package, a margin length and a phone icon between the texts\<close>
  "sample_pieces_route =
     [Plain (BS # ''documentclass{article}''),
      Macro 0 [''5''],
      Macro 7 [BS # ''oddsidemargin'', ''-0.5in''],
      Plain (BS # ''begin{document}''),
      Macro 3 [],
      Plain ('' 555 MARK'' @ BS # ''end{document}'')]"

section \<open>Verified properties\<close>

subsection \<open>Evaluation\<close>

lemma bits_value_bound: "bits_value bs < 2 ^ length bs"
  by (induction bs) auto

lemma lex_le_value: "length as = length bs \<Longrightarrow> lex_le as bs = (bits_value as \<le> bits_value bs)"
proof (induction as arbitrary: bs)
  case Nil
  then show ?case by simp
next
  case (Cons a as)
  then obtain b bs' where bs: "bs = b # bs'" and len: "length as = length bs'"
    by (cases bs) auto
  show ?case
    using Cons.IH [OF len] bits_value_bound [of as] bits_value_bound [of bs'] len
    by (auto simp: bs)
qed

lemma of_char_bits: "of_char c = bits_value (bits c)"
  by (cases c) simp

lemma in_range_bits [code]:
  "in_range lo hi c = (lex_le (bits lo) (bits c) \<and> lex_le (bits c) (bits hi))"
proof -
  have l: "length (bits a) = length (bits b)" for a b
    by (cases a; cases b) simp
  show ?thesis
    by (simp add: in_range_def of_char_bits lex_le_value [OF l])
qed

lemmas rx_shapes = Spaces_def arg_def braced_def Not_def Plus_def Opt_def Any_def match_here_def

subsection \<open>The matcher\<close>

lemma passes_onD:
  "passes_on f \<Longrightarrow> f k s c = Some res \<Longrightarrow> \<exists>s' c'. length s' \<le> length s \<and> k s' c' = Some res"
  unfolding passes_on_def by blast

lemma star_greedy_passes_on:
  assumes "passes_on f"
  shows "star_greedy f n k s c = Some res \<Longrightarrow> \<exists>s' c'. length s' \<le> length s \<and> k s' c' = Some res"
proof (induction n arbitrary: s c)
  case 0
  then show ?case by auto
next
  case (Suc n)
  show ?case
  proof (cases "f (\<lambda>s' c'. if length s' < length s then star_greedy f n k s' c' else None) s c")
    case None
    with Suc.prems show ?thesis by auto
  next
    case (Some r)
    with Suc.prems have r: "r = res" by simp
    from passes_onD [OF assms Some] obtain s1 c1 where
      "length s1 \<le> length s" and
      "(if length s1 < length s then star_greedy f n k s1 c1 else None) = Some r"
      by blast
    then have "length s1 < length s" and "star_greedy f n k s1 c1 = Some res"
      using r by (auto split: if_splits)
    with Suc.IH [of s1 c1] show ?thesis
      by (meson le_trans less_imp_le)
  qed
qed

lemma star_lazy_passes_on:
  assumes "passes_on f"
  shows "star_lazy f n k s c = Some res \<Longrightarrow> \<exists>s' c'. length s' \<le> length s \<and> k s' c' = Some res"
proof (induction n arbitrary: s c)
  case 0
  then show ?case by auto
next
  case (Suc n)
  show ?case
  proof (cases "k s c")
    case (Some r)
    with Suc.prems show ?thesis by auto
  next
    case None
    with Suc.prems have
      "f (\<lambda>s' c'. if length s' < length s then star_lazy f n k s' c' else None) s c = Some res"
      by simp
    from passes_onD [OF assms this] obtain s1 c1 where
      "length s1 \<le> length s" and
      "(if length s1 < length s then star_lazy f n k s1 c1 else None) = Some res"
      by blast
    then have "length s1 < length s" and "star_lazy f n k s1 c1 = Some res"
      by (auto split: if_splits)
    with Suc.IH [of s1 c1] show ?thesis
      by (meson le_trans less_imp_le)
  qed
qed

lemma rx_m_passes_on: "passes_on (rx_m ci r)"
proof (induction r)
  case (Lit l)
  show ?case
    unfolding passes_on_def
  proof (intro allI impI)
    fix k s c res
    assume "rx_m ci (Lit l) k s c = Some res"
    then have "k (drop (length l) s) c = Some res"
      by (auto split: if_splits)
    moreover have "length (drop (length l) s) \<le> length s" by simp
    ultimately show "\<exists>s' c'. length s' \<le> length s \<and> k s' c' = Some res" by blast
  qed
next
  case (Cls neg items)
  show ?case
    unfolding passes_on_def
  proof (intro allI impI)
    fix k s c res
    assume "rx_m ci (Cls neg items) k s c = Some res"
    then obtain x xs where "s = x # xs" and "k xs c = Some res"
      by (auto split: list.splits if_splits)
    then show "\<exists>s' c'. length s' \<le> length s \<and> k s' c' = Some res"
      by (intro exI [of _ xs] exI [of _ c]) simp
  qed
next
  case (Seq a b)
  show ?case
    unfolding passes_on_def
  proof (intro allI impI)
    fix k s c res
    assume "rx_m ci (Seq a b) k s c = Some res"
    then have "rx_m ci a (rx_m ci b k) s c = Some res" by simp
    from passes_onD [OF Seq.IH(1) this] obtain s1 c1 where
      1: "length s1 \<le> length s" and "rx_m ci b k s1 c1 = Some res" by blast
    from passes_onD [OF Seq.IH(2) this(2)] obtain s2 c2 where
      "length s2 \<le> length s1" and "k s2 c2 = Some res" by blast
    with 1 show "\<exists>s' c'. length s' \<le> length s \<and> k s' c' = Some res"
      by (meson le_trans)
  qed
next
  case (Alt a b)
  show ?case
    unfolding passes_on_def
  proof (intro allI impI)
    fix k s c res
    assume *: "rx_m ci (Alt a b) k s c = Some res"
    show "\<exists>s' c'. length s' \<le> length s \<and> k s' c' = Some res"
    proof (cases "rx_m ci a k s c")
      case None
      with * have "rx_m ci b k s c = Some res" by simp
      from passes_onD [OF Alt.IH(2) this] show ?thesis .
    next
      case (Some r)
      with * have "rx_m ci a k s c = Some res" by simp
      from passes_onD [OF Alt.IH(1) this] show ?thesis .
    qed
  qed
next
  case (Star r)
  show ?case
    unfolding passes_on_def
    using star_greedy_passes_on [OF Star.IH] by simp
next
  case (StarLazy r)
  show ?case
    unfolding passes_on_def
    using star_lazy_passes_on [OF StarLazy.IH] by simp
next
  case (Group n r)
  show ?case
    unfolding passes_on_def
  proof (intro allI impI)
    fix k s c res
    assume "rx_m ci (Group n r) k s c = Some res"
    then have "rx_m ci r (\<lambda>s' c'. k s' ((n, take (length s - length s') s) # c')) s c = Some res"
      by simp
    from passes_onD [OF Group.IH this]
    show "\<exists>s' c'. length s' \<le> length s \<and> k s' c' = Some res" by blast
  qed
next
  case (Look r)
  show ?case
    unfolding passes_on_def
    by (auto split: option.splits)
next
  case Eos
  show ?case
    unfolding passes_on_def
    by (auto split: if_splits)
qed

text \<open>
  A pattern that starts with a literal character consumes at least one character. Every
  pattern that the route runs in a \<open>while (exec)\<close> loop starts with a backslash, so these loops
  move on with every match.
\<close>

lemma literal_head_consumes:
  assumes "match_here ci (Seq (Lit (p # ps)) r) s = Some (rest, c)"
  shows "length rest < length s"
proof -
  from assms have l: "lit_prefix ci (p # ps) s"
    and m: "rx_m ci r (\<lambda>s' c'. Some (s', c')) (drop (length (p # ps)) s) [] = Some (rest, c)"
    by (auto simp: match_here_def split: if_splits)
  from l have "s \<noteq> []" by (cases s) auto
  from passes_onD [OF rx_m_passes_on m] have "length rest \<le> length (drop (length (p # ps)) s)"
    by auto
  with \<open>s \<noteq> []\<close> show ?thesis by (cases s) auto
qed

lemma exec_patterns_start_with_backslash:
  "list_all (\<lambda>p. \<exists>l r. p = Seq (Lit (BS # l)) r)
     [sectionPattern, subsectionPattern, resumeSubheading, cventry, job_macro, bold_italic_years,
      education_macro, cvitem, skill_macro, tabularPattern, itemizePattern, customPattern,
      projectHeadingPattern, itemPattern]"
  by (simp add: sectionPattern_def subsectionPattern_def resumeSubheading_def cventry_def job_macro_def
      bold_italic_years_def education_macro_def cvitem_def skill_macro_def tabularPattern_def
      itemizePattern_def customPattern_def projectHeadingPattern_def itemPattern_def)

text \<open>
  The bound on the iterations of a repetition is never what ends it: any bound from the
  length of the input on gives the same result.
\<close>

lemma rx_m_no_continuation: "passes_on f \<Longrightarrow> f (\<lambda>s c. None) s c = None"
  by (metis not_Some_eq passes_onD)

lemma star_greedy_fuel:
  assumes "passes_on f"
  shows "length s \<le> n \<Longrightarrow> length s \<le> m \<Longrightarrow> star_greedy f n k s c = star_greedy f m k s c"
proof (induction n arbitrary: m s c)
  case 0
  then have "s = []" by simp
  show ?case
  proof (cases m)
    case 0
    then show ?thesis by simp
  next
    case (Suc m')
    then show ?thesis
      using \<open>s = []\<close> rx_m_no_continuation [OF assms] by simp
  qed
next
  case (Suc n)
  show ?case
  proof (cases m)
    case 0
    with Suc.prems have "s = []" by simp
    then show ?thesis
      using 0 rx_m_no_continuation [OF assms] by simp
  next
    case m: (Suc m')
    have "(\<lambda>s' c'. if length s' < length s then star_greedy f n k s' c' else None)
        = (\<lambda>s' c'. if length s' < length s then star_greedy f m' k s' c' else None)"
    proof (intro ext)
      fix s' c'
      show "(if length s' < length s then star_greedy f n k s' c' else None)
          = (if length s' < length s then star_greedy f m' k s' c' else None)"
        using Suc.IH [of s' m' c'] Suc.prems m by auto
    qed
    then show ?thesis
      using m by simp
  qed
qed

lemma star_lazy_fuel:
  assumes "passes_on f"
  shows "length s \<le> n \<Longrightarrow> length s \<le> m \<Longrightarrow> star_lazy f n k s c = star_lazy f m k s c"
proof (induction n arbitrary: m s c)
  case 0
  then have "s = []" by simp
  show ?case
  proof (cases m)
    case 0
    then show ?thesis by simp
  next
    case (Suc m')
    then show ?thesis
      using \<open>s = []\<close> rx_m_no_continuation [OF assms] by (simp split: option.splits)
  qed
next
  case (Suc n)
  show ?case
  proof (cases m)
    case 0
    with Suc.prems have "s = []" by simp
    then show ?thesis
      using 0 rx_m_no_continuation [OF assms] by (simp split: option.splits)
  next
    case m: (Suc m')
    have "(\<lambda>s' c'. if length s' < length s then star_lazy f n k s' c' else None)
        = (\<lambda>s' c'. if length s' < length s then star_lazy f m' k s' c' else None)"
    proof (intro ext)
      fix s' c'
      show "(if length s' < length s then star_lazy f n k s' c' else None)
          = (if length s' < length s then star_lazy f m' k s' c' else None)"
        using Suc.IH [of s' m' c'] Suc.prems m by auto
    qed
    then show ?thesis
      using m by (simp cong: option.case_cong)
  qed
qed

subsection \<open>Validation\<close>

lemma validation_errors:
  "errors (returned (simulateLatexCompilation_with generate net c)) =
     (case violations c of [] \<Rightarrow> None | v # vs \<Rightarrow> Some [v])"
  by (simp add: simulateLatexCompilation_with_def violations_def failure_def Let_def split: prod.splits)

lemma validation_success:
  "success (returned (simulateLatexCompilation_with generate net c)) = (violations c = [])"
  by (simp add: simulateLatexCompilation_with_def violations_def failure_def Let_def split: prod.splits)

lemma validation_calls:
  "violations c \<noteq> [] \<Longrightarrow> network_calls (simulateLatexCompilation_with generate net c) = []"
  by (simp add: simulateLatexCompilation_with_def violations_def failure_def Let_def
      split: prod.splits if_splits)

lemma validation_buffer:
  "pdfBuffer (returned (simulateLatexCompilation_with generate net c))
     = (if violations c = [] then Some (fst (generate net c)) else None)"
  by (simp add: simulateLatexCompilation_with_def violations_def failure_def Let_def split: prod.splits)

lemma violations_x:
  "violations ''x'' =
     [''Missing '' @ BS # ''documentclass declaration'', ''Missing '' @ BS # ''begin{document}'',
      ''Missing '' @ BS # ''end{document}'']"
  by (simp add: violations_def count_char_def)




text \<open>
  C4, as stated: every source without the end marker gets an error that names the end marker.
  A source that has only the document class gets the error of the missing begin marker.
\<close>

theorem missing_end_marker_not_named_counterexample:
  "\<not> str_includes (BS # ''documentclass{article}'') (BS # ''end{document}'')
   \<and> errors (returned (simulateLatexCompilation sample_jspdf offline (BS # ''documentclass{article}'')))
       = Some [''Missing '' @ BS # ''begin{document}'']
   \<and> errors (returned (simulateLatexCompilation_route sample_jspdf offline (BS # ''documentclass{article}'')))
       = Some [''Missing '' @ BS # ''begin{document}'']"
  by (simp add: simulateLatexCompilation_def simulateLatexCompilation_route_def validation_errors
      violations_def count_char_def)

text \<open>
  C4, amended: for every source without the end marker, both routes return
  \<open>success: false\<close> without a document and without a single request; the error names the
  missing end marker when the document class and the begin marker are there.
\<close>

theorem missing_end_marker_fails_without_network:
  assumes "\<not> str_includes source (BS # ''end{document}'')"
  shows "\<not> success (returned (simulateLatexCompilation lib net source))
       \<and> network_calls (simulateLatexCompilation lib net source) = []
       \<and> \<not> success (returned (simulateLatexCompilation_route lib net source))
       \<and> network_calls (simulateLatexCompilation_route lib net source) = []
       \<and> (str_includes source (BS # ''documentclass'') \<and> str_includes source (BS # ''begin{document}'')
            \<longrightarrow> errors (returned (simulateLatexCompilation lib net source))
                  = Some [''Missing '' @ BS # ''end{document}'']
              \<and> errors (returned (simulateLatexCompilation_route lib net source))
                  = Some [''Missing '' @ BS # ''end{document}''])"
proof -
  from assms have v: "violations source \<noteq> []"
    by (simp add: violations_def)
  have e: "str_includes source (BS # ''documentclass'') \<and> str_includes source (BS # ''begin{document}'')
      \<Longrightarrow> (case violations source of [] \<Rightarrow> None | v # vs \<Rightarrow> Some [v])
          = Some [''Missing '' @ BS # ''end{document}'']"
    using assms by (simp add: violations_def)
  show ?thesis
    using v e
    by (simp add: simulateLatexCompilation_def simulateLatexCompilation_route_def validation_errors
        validation_success validation_calls)
qed

theorem missing_end_marker_fails_without_network_witness:
  "\<not> str_includes (BS # ''documentclass{article}'' @ BS # ''begin{document}'') (BS # ''end{document}'')
   \<and> \<not> success (returned (simulateLatexCompilation sample_jspdf untyped_network
          (BS # ''documentclass{article}'' @ BS # ''begin{document}'')))
   \<and> network_calls (simulateLatexCompilation sample_jspdf untyped_network
          (BS # ''documentclass{article}'' @ BS # ''begin{document}'')) = []
   \<and> errors (returned (simulateLatexCompilation sample_jspdf untyped_network
          (BS # ''documentclass{article}'' @ BS # ''begin{document}'')))
       = Some [''Missing '' @ BS # ''end{document}'']"
proof -
  have h: "\<not> str_includes (BS # ''documentclass{article}'' @ BS # ''begin{document}'') (BS # ''end{document}'')"
    by simp
  have p: "str_includes (BS # ''documentclass{article}'' @ BS # ''begin{document}'') (BS # ''documentclass'')
      \<and> str_includes (BS # ''documentclass{article}'' @ BS # ''begin{document}'') (BS # ''begin{document}'')"
    by simp
  show ?thesis
    using h p missing_end_marker_fails_without_network [OF h, of sample_jspdf untyped_network]
    by blast
qed

text \<open>
  C2, as stated: the returned result always carries a document. The result for the source
  \<open>x\<close> carries none.
\<close>

theorem document_absent_counterexample:
  "\<not> success (returned (simulateLatexCompilation sample_jspdf offline ''x''))
   \<and> pdfBuffer (returned (simulateLatexCompilation sample_jspdf offline ''x'')) = None
   \<and> pdfBuffer (returned (simulateLatexCompilation_route sample_jspdf offline ''x'')) = None"
  using validation_buffer [of "generateSamplePDF sample_jspdf" offline "''x''"]
    validation_buffer [of "generateSamplePDF_route sample_jspdf" offline "''x''"]
  by (simp add: simulateLatexCompilation_def simulateLatexCompilation_route_def validation_success
      violations_x)

text \<open>
  C2, amended: the document is present exactly when \<open>success\<close> is true. A result with
  \<open>success: false\<close> carries no document and exactly one error, and comes from a source that
  fails validation.
\<close>

theorem document_present_iff_success:
  "(pdfBuffer (returned (simulateLatexCompilation lib net source)) \<noteq> None)
     = success (returned (simulateLatexCompilation lib net source))
   \<and> (pdfBuffer (returned (simulateLatexCompilation_route lib net source)) \<noteq> None)
     = success (returned (simulateLatexCompilation_route lib net source))
   \<and> (\<not> success (returned (simulateLatexCompilation lib net source))
        \<longrightarrow> errors (returned (simulateLatexCompilation lib net source)) = Some [hd (violations source)]
            \<and> violations source \<noteq> [])
   \<and> (\<not> success (returned (simulateLatexCompilation_route lib net source))
        \<longrightarrow> errors (returned (simulateLatexCompilation_route lib net source)) = Some [hd (violations source)]
            \<and> violations source \<noteq> [])"
  by (cases "violations source")
     (simp_all add: simulateLatexCompilation_def simulateLatexCompilation_route_def validation_errors
       validation_success validation_buffer)

theorem document_present_iff_success_witness:
  "\<not> success (returned (simulateLatexCompilation sample_jspdf offline (BS # ''begin{document}'')))
   \<and> pdfBuffer (returned (simulateLatexCompilation sample_jspdf offline (BS # ''begin{document}''))) = None
   \<and> errors (returned (simulateLatexCompilation sample_jspdf offline (BS # ''begin{document}'')))
       = Some [''Missing '' @ BS # ''documentclass declaration'']"
proof -
  have v: "violations (BS # ''begin{document}'')
      = [''Missing '' @ BS # ''documentclass declaration'', ''Missing '' @ BS # ''end{document}'']"
    by (simp add: violations_def count_char_def)
  have s: "\<not> success (returned (simulateLatexCompilation sample_jspdf offline (BS # ''begin{document}'')))"
    by (simp add: simulateLatexCompilation_def validation_success v)
  show ?thesis
    using s v document_present_iff_success [of sample_jspdf offline "BS # ''begin{document}''"]
    by simp
qed

subsection \<open>The remote client\<close>

lemma run_methods_typed:
  assumes "result (run_methods net ms a) = Some pdf" and "result a = None"
    and "list_all (\<lambda>m. accepts m = typed_pdf) ms"
  shows "list_ex (\<lambda>m. \<exists>resp. snd (net (request m)) = Resolved resp \<and> ok resp \<and> is_pdf resp
           \<and> 1000 < length (arrayBuffer resp) \<and> pdf = arrayBuffer resp) ms"
  using assms
proof (induction ms arbitrary: a)
  case Nil
  then show ?case by simp
next
  case (Cons m ms)
  then show ?case
    by (auto simp: fetch_def typed_pdf_def Let_def
        split: prod.splits fetch_result.splits option.splits if_splits)
qed

text \<open>
  In the client of \<open>src/app/api/compile/route.ts\<close> a non-null result is the body of a
  response that was \<open>ok\<close>, declared a PDF and longer than 1000 bytes.
\<close>

lemma tryLatexOnline_route_typed:
  assumes "result (tryLatexOnline_route net latexContent) = Some pdf"
  shows "\<exists>req resp. snd (net req) = Resolved resp \<and> latex_text req = latexContent \<and> ok resp
           \<and> is_pdf resp \<and> 1000 < length (arrayBuffer resp) \<and> pdf = arrayBuffer resp"
proof -
  let ?P = "\<lambda>m. \<exists>resp. snd (net (request m)) = Resolved resp \<and> ok resp \<and> is_pdf resp
           \<and> 1000 < length (arrayBuffer resp) \<and> pdf = arrayBuffer resp"
  have "list_ex ?P (take 2 (methods latexContent))"
    using run_methods_typed [of net "take 2 (methods latexContent)" no_attempt pdf] assms
    by (simp add: tryLatexOnline_route_def methods_def no_attempt_def)
  then obtain m where m: "m \<in> set (take 2 (methods latexContent))" and p: "?P m"
    by (auto simp: list_ex_iff)
  from m have "latex_text (request m) = latexContent"
    by (auto simp: methods_def latexonline_def)
  with p show ?thesis by blast
qed

text \<open>
  C7: the client returns bytes only for a response that declares a PDF and is over the floor.
  In the full compile route the fourth method, the alternative service, returns the body of
  any \<open>ok\<close> response over the floor: here 1001 bytes declared as \<open>text/html\<close>, while every
  other request is answered with an error status. The client of \<open>route.ts\<close>, which has no
  fourth method, returns null on the same network.
\<close>

theorem alternative_service_accepts_untyped_response:
  "snd (untyped_network \<lparr>endpoint = AslushnikovPost, latex_text = minimal_document, command = None\<rparr>)
     = Resolved \<lparr>ok = True, content_type = Some ''text/html'', arrayBuffer = replicate 1001 0\<rparr>
   \<and> \<not> is_pdf \<lparr>ok = True, content_type = Some ''text/html'', arrayBuffer = replicate 1001 0\<rparr>
   \<and> result (tryLatexOnline untyped_network minimal_document) = Some (replicate 1001 0)
   \<and> result (tryLatexOnline_route untyped_network minimal_document) = None"
  by (simp add: tryLatexOnline_def tryLatexOnline_route_def methods_def no_attempt_def fetch_def
      untyped_network_def latexonline_def typed_pdf_def untyped_pdf_def is_pdf_def)

subsection \<open>The simplifier\<close>

lemma rx_replace_from_no_match:
  "rx_match ci r s = None \<Longrightarrow> rx_replace_from ci r rep 0 s = s"
  by (induction s) (auto split: option.splits)

lemma rx_replace_no_match: "\<not> rx_test False r s \<Longrightarrow> rx_replace r rep s = s"
  by (simp add: rx_test_def rx_replace_def rx_replace_from_no_match)

lemma apply_rules_construct_free:
  "construct_free rules s \<Longrightarrow> apply_rules rules s = s"
  unfolding apply_rules_def construct_free_def
  by (induction rules) (auto simp: rx_replace_no_match)

lemma replace_first_absent: "\<not> str_includes s pat \<Longrightarrow> replace_first pat rep s = s"
  by (induction s) (auto split: if_splits)

lemmas simplify_eval =
  simplifyLatexForOnlineServices_def simplifyLatexForOnlineServices_route_def apply_rules_def
  simplify_rules_def simplify_rules_route_def braced_arg_def rx_replace_def match_here_def Not_def
  Opt_def documentclass_line_def geometry_line_def

subsection \<open>Plain texts\<close>

text \<open>
  A clash with the first literal part of a pattern stays a clash when text is joined behind,
  so plain texts can be joined to plain texts.
\<close>

lemma starts_with_append: "starts_with p (p @ s)"
  by (induction p) auto

lemma starts_with_iff: "starts_with p s = (\<exists>r. s = p @ r)"
proof (induction p s rule: starts_with.induct)
qed auto

lemma lit_prefix_starts_with: "lit_prefix False l s = starts_with l s"
  by (induction l s rule: starts_with.induct) auto

lemma starts_with_split:
  "starts_with h (v @ s) \<Longrightarrow> starts_with h v \<or> starts_with v h"
proof (induction h v rule: starts_with.induct)
  case (1 s)
  then show ?case by simp
next
  case (2 p ps)
  then show ?case by simp
next
  case (3 p ps c cs)
  then show ?case by auto
qed

lemma clash_append: "clash h t \<Longrightarrow> \<not> starts_with h (t @ s)"
  unfolding clash_def using starts_with_split by blast

lemma clash_extend: "clash h t \<Longrightarrow> clash h (t @ s)"
  unfolding clash_def
  by (metis append.assoc starts_with_iff starts_with_split)

lemma clash_sym: "clash h t = clash t h"
  unfolding clash_def by auto

lemma tails_nonempty: "tails a \<noteq> []"
  by (cases a) auto

lemma in_tails: "t \<in> set (tails s) = (\<exists>p. s = p @ t)"
proof (induction s)
  case Nil
  then show ?case by auto
next
  case (Cons x xs)
  show ?case
  proof
    assume "t \<in> set (tails (x # xs))"
    then show "\<exists>p. x # xs = p @ t"
      using Cons.IH by (auto intro: exI [of _ "[]"])
  next
    assume "\<exists>p. x # xs = p @ t"
    then obtain p where p: "x # xs = p @ t" by blast
    show "t \<in> set (tails (x # xs))"
    proof (cases p)
      case Nil
      with p show ?thesis by auto
    next
      case (Cons y ys)
      with p have "xs = ys @ t" by simp
      with Cons.IH show ?thesis by auto
    qed
  qed
qed

lemma quietD:
  "quiet hs (p @ BS # t) \<Longrightarrow> h \<in> set hs \<Longrightarrow> clash h (BS # t)"
  unfolding quiet_def list_all_iff
  using in_tails [of "BS # t" "p @ BS # t"] by auto

lemma quietI:
  "(\<And>p t h. s = p @ BS # t \<Longrightarrow> h \<in> set hs \<Longrightarrow> clash h (BS # t)) \<Longrightarrow> quiet hs s"
  unfolding quiet_def list_all_iff
proof (intro ballI)
  fix t
  assume a: "\<And>p t h. s = p @ BS # t \<Longrightarrow> h \<in> set hs \<Longrightarrow> clash h (BS # t)" and t: "t \<in> set (tails s)"
  from t obtain p where p: "s = p @ t" using in_tails by blast
  show "if starts_with [BS] t then \<forall>h\<in>set hs. clash h t else True"
  proof (cases t)
    case Nil
    then show ?thesis by simp
  next
    case (Cons x xs)
    then show ?thesis using a [of p xs] p by auto
  qed
qed

lemma quiet_append: "quiet hs a \<Longrightarrow> quiet hs b \<Longrightarrow> quiet hs (a @ b)"
proof (rule quietI)
  fix p t h
  assume a: "quiet hs a" and b: "quiet hs b" and eq: "a @ b = p @ BS # t" and h: "h \<in> set hs"
  from eq consider (left) u where "a = p @ BS # u" "t = u @ b" | (right) q where "b = q @ BS # t"
    by (auto simp: append_eq_append_conv2 append_eq_Cons_conv Cons_eq_append_conv)
  then show "clash h (BS # t)"
  proof cases
    case left
    from quietD [OF a [unfolded left(1)] h] have "clash h (BS # u)" .
    from clash_extend [OF this, of b] show ?thesis by (simp add: left)
  next
    case right
    from quietD [OF b [unfolded right] h] show ?thesis .
  qed
qed

lemma quiet_Nil: "quiet hs []"
  by (simp add: quiet_def)

lemma quiet_concat: "list_all (quiet hs) xs \<Longrightarrow> quiet hs (concat xs)"
  by (induction xs) (auto simp: quiet_Nil quiet_append)

lemma quiet_written:
  "list_all (quiet hs) ps \<Longrightarrow> list_all (quiet hs) as \<Longrightarrow> quiet hs (written ps as)"
  by (induction ps as rule: written.induct) (auto simp: quiet_Nil quiet_append quiet_concat)

lemma quiet_weaken: "quiet (e @ hs) s \<Longrightarrow> quiet hs s"
  unfolding quiet_def list_all_iff by auto

lemma quiet_sub: "quiet hs s \<Longrightarrow> set hs' \<subseteq> set hs \<Longrightarrow> quiet hs' s"
  unfolding quiet_def list_all_iff by auto

subsection \<open>Patterns on constructs written in full\<close>

text \<open>
  A pattern matches only where its first literal part stands. On a construct written in full
  it matches exactly the construct, whatever follows: the repetition \<open>[^}]*\<close> takes the whole
  argument, and every shorter try ends before a character that is not the closing brace.
\<close>

lemma match_starts_with_head:
  "\<not> starts_with h s \<Longrightarrow> match_here False (Lit h) s = None"
  "\<not> starts_with h s \<Longrightarrow> match_here False (Seq (Lit h) x) s = None"
  by (simp_all add: match_here_def lit_prefix_starts_with)

lemma lit_hits: "match_here False (Lit h) (h @ rest) = Some (rest, [])"
  by (simp add: match_here_def lit_prefix_starts_with starts_with_append)

lemma star_not_char:
  assumes K: "\<And>x xs caps. x \<noteq> c \<Longrightarrow> K (x # xs) caps = None"
  shows "c \<notin> set a \<Longrightarrow> length a < n
    \<Longrightarrow> star_greedy (rx_m False (Cls True [One c])) n K (a @ c # s) caps = K (c # s) caps"
proof (induction a arbitrary: n)
  case Nil
  then obtain m where "n = Suc m" by (cases n) auto
  then show ?case by simp
next
  case (Cons x a)
  then obtain m where n: "n = Suc m" and m: "length a < m" by (cases n) auto
  from Cons.prems have x: "x \<noteq> c" and a: "c \<notin> set a" by auto
  show ?case
    using Cons.IH [OF a m] x K [OF x] by (simp add: n split: option.splits)
qed

lemma star_then_lit:
  assumes "c \<notin> set a"
  shows "rx_m False (Seq (Star (Not [c])) (Seq (Lit (c # p)) r)) k (a @ c # s) caps
       = rx_m False (Seq (Lit (c # p)) r) k (c # s) caps"
    and "rx_m False (Seq (Star (Not [c])) (Lit (c # p))) k (a @ c # s) caps
       = rx_m False (Lit (c # p)) k (c # s) caps"
proof -
  have "star_greedy (rx_m False (Cls True [One c])) (length (a @ c # s)) (rx_m False (Seq (Lit (c # p)) r) k)
          (a @ c # s) caps = rx_m False (Seq (Lit (c # p)) r) k (c # s) caps"
    by (rule star_not_char [OF _ assms]) auto
  then show "rx_m False (Seq (Star (Not [c])) (Seq (Lit (c # p)) r)) k (a @ c # s) caps
       = rx_m False (Seq (Lit (c # p)) r) k (c # s) caps"
    by (simp add: Not_def)
  have "star_greedy (rx_m False (Cls True [One c])) (length (a @ c # s)) (rx_m False (Lit (c # p)) k)
          (a @ c # s) caps = rx_m False (Lit (c # p)) k (c # s) caps"
    by (rule star_not_char [OF _ assms]) auto
  then show "rx_m False (Seq (Star (Not [c])) (Lit (c # p))) k (a @ c # s) caps
       = rx_m False (Lit (c # p)) k (c # s) caps"
    by (simp add: Not_def)
qed

lemma fits_star:
  assumes f: "\<And>k x xs caps. f k (x # xs) caps = (if x = c then None else k xs caps)"
  shows "star_greedy f n (rx_m False Eos K) a caps \<noteq> None \<Longrightarrow> c \<notin> set a"
proof (induction a arbitrary: n caps)
  case Nil
  then show ?case by simp
next
  case (Cons x a)
  show ?case
  proof (cases n)
    case 0
    with Cons.prems show ?thesis by simp
  next
    case (Suc m)
    show ?thesis
    proof (cases "x = c")
      case True
      with Cons.prems Suc show ?thesis by (simp add: f)
    next
      case False
      with Cons.prems Suc have "star_greedy f m (rx_m False Eos K) a caps \<noteq> None"
        by (auto simp: f split: option.splits)
      from Cons.IH [OF this] False show ?thesis by simp
    qed
  qed
qed

lemma fits_not: "fits (Star (Not [c])) a \<Longrightarrow> c \<notin> set a"
  unfolding fits_def match_here_def Not_def
  using fits_star [of "rx_m False (Cls True [One c])" c "length a" "\<lambda>s' c'. Some (s', c')" a "[]"]
  by auto

lemma starts_with_all: "starts_with x a \<Longrightarrow> drop (length x) a = [] \<Longrightarrow> a = x"
  by (auto simp: starts_with_iff)

lemma fits_opt: "fits (Opt (Lit x)) a \<Longrightarrow> a = x \<or> a = []"
  unfolding fits_def match_here_def Opt_def
  by (auto simp: lit_prefix_starts_with starts_with_iff split: option.splits if_splits)

lemma braced_hits:
  "CHR ''}'' \<notin> set a \<Longrightarrow> match_here False (braced_arg h) (h @ a @ ''}'' @ rest) = Some (rest, [])"
  using star_then_lit(2) [of "CHR ''}''" a "[]" "\<lambda>s' c'. Some (s', c')" rest "[]"]
  by (simp add: braced_arg_def match_here_def lit_prefix_starts_with starts_with_append)

lemma optional_hits:
  assumes "a = x \<or> a = []" and "x \<noteq> []" and "hd x \<noteq> c"
  shows "match_here False (Seq (Lit h) (Seq (Opt (Lit x)) (Lit (c # p)))) (h @ a @ (c # p) @ rest)
      = Some (rest, [])"
proof -
  from assms(2,3) have n: "\<not> starts_with x (c # p @ rest)" by (cases x) auto
  show ?thesis
    using assms(1) n
    by (auto simp: match_here_def Opt_def lit_prefix_starts_with starts_with_append
        starts_with_append [of "c # p", simplified])
qed

lemma two_braced_hits:
  assumes "CHR ''}'' \<notin> set a" and "CHR ''}'' \<notin> set b"
  shows "match_here False (seqs [Lit h, Star (Not ''}''), Lit ''}{'', Star (Not ''}''), Lit ''}''])
           (h @ a @ ''}{'' @ b @ ''}'' @ rest) = Some (rest, [])"
  using star_then_lit(1) [OF assms(1), of "''{''" "Seq (Star (Not ''}'')) (Lit ''}'')" "\<lambda>s' c'. Some (s', c')"
      "''{'' @ b @ ''}'' @ rest" "[]"]
    star_then_lit(2) [OF assms(2), of "[]" "\<lambda>s' c'. Some (s', c')" rest "[]"]
  by (simp add: match_here_def lit_prefix_starts_with starts_with_append)

lemma replace_skip:
  "rx_replace_from ci r rep (length u) (u @ s) = rx_replace_from ci r rep 0 s"
  by (induction u) auto

lemma replace_hit:
  assumes "match_here ci r (w @ s) = Some (s, c)" and "w \<noteq> []"
  shows "rx_replace_from ci r rep 0 (w @ s) = rep c @ rx_replace_from ci r rep 0 s"
proof -
  from assms(2) obtain x xs where w: "w = x # xs" by (cases w) auto
  have "length xs + length s - length s = length xs" by simp
  then show ?thesis
    using assms(1) replace_skip [of ci r rep xs s] by (simp add: w)
qed

lemma replace_inert:
  assumes "\<And>p v. u = p @ v \<Longrightarrow> v \<noteq> [] \<Longrightarrow> match_here ci r (v @ s) = None"
  shows "rx_replace_from ci r rep 0 (u @ s) = u @ rx_replace_from ci r rep 0 s"
  using assms
proof (induction u)
  case Nil
  then show ?case by simp
next
  case (Cons x u)
  have a: "match_here ci r ((x # u) @ s) = None"
    using Cons.prems [of "[]" "x # u"] by simp
  have "rx_replace_from ci r rep 0 (u @ s) = u @ rx_replace_from ci r rep 0 s"
  proof (rule Cons.IH)
    fix p v
    assume "u = p @ v" and "v \<noteq> []"
    then show "match_here ci r (v @ s) = None"
      using Cons.prems [of "x # p" v] by simp
  qed
  with a show ?case by simp
qed

subsection \<open>One rule after the other on a laid out source\<close>

text \<open>
  Rule \<open>n\<close> rewrites the constructs of rule \<open>n\<close> and nothing else: it cannot start in a plain
  text, in a replacement text or inside a construct, and at the head of the construct of
  another rule the two first literal parts clash.
\<close>

lemma all_clash_nth:
  "all_clash xs \<Longrightarrow> i < j \<Longrightarrow> j < length xs \<Longrightarrow> clash (xs ! i) (xs ! j)"
proof (induction xs arbitrary: i j)
  case Nil
  then show ?case by simp
next
  case (Cons x xs)
  then obtain j' where j: "j = Suc j'" by (cases j) auto
  show ?case
  proof (cases i)
    case 0
    with Cons.prems j show ?thesis by (auto simp: list_all_iff)
  next
    case (Suc i')
    with Cons.prems j Cons.IH [of i' j'] show ?thesis by simp
  qed
qed

lemma all_clash_distinct:
  assumes "all_clash xs" and "i < length xs" and "j < length xs" and "i \<noteq> j"
  shows "clash (xs ! i) (xs ! j)"
proof (cases "i < j")
  case True
  with assms show ?thesis by (simp add: all_clash_nth)
next
  case False
  with assms have "j < i" by simp
  with assms have "clash (xs ! j) (xs ! i)" by (simp add: all_clash_nth)
  then show ?thesis by (simp add: clash_sym)
qed

lemma quiet_inert:
  assumes "quiet hs u" and "h \<in> set hs" and "starts_with [BS] h" and "u = p @ v" and "v \<noteq> []"
  shows "\<not> starts_with h (v @ s)"
proof -
  from assms(5) obtain x xs where v: "v = x # xs" by (cases v) auto
  from assms(3) obtain h' where h: "h = BS # h'" by (cases h) auto
  show ?thesis
  proof (cases "x = BS")
    case True
    from quietD [OF assms(1) [unfolded assms(4) v True] assms(2)]
    have "clash h (BS # xs)" .
    from clash_append [OF this] show ?thesis by (simp add: v True)
  next
    case False
    then show ?thesis by (simp add: v h)
  qed
qed

lemma quiet_tl: "quiet hs (x # xs) \<Longrightarrow> quiet hs xs"
  by (simp add: quiet_def)

lemma written_head:
  "written (h # ps) args = h @ (case args of [] \<Rightarrow> concat ps | a # as \<Rightarrow> a @ written ps as)"
  by (cases args) auto

lemma written_rest_quiet:
  "list_all (quiet hs) ps \<Longrightarrow> list_all (quiet hs) args
    \<Longrightarrow> quiet hs (case args of [] \<Rightarrow> concat ps | a # as \<Rightarrow> a @ written ps as)"
  by (cases args) (auto simp: quiet_concat quiet_append quiet_written)

text \<open>What the checks on a rule list give for one rule.\<close>

lemma tidy_rule:
  assumes "tidy rules hs" and "k < length rules"
  shows "\<exists>h ps. parts (fst (rules ! k)) = (BS # h) # ps \<and> quiet hs h \<and> list_all (quiet hs) ps
    \<and> quiet hs (snd (rules ! k)) \<and> heads rules ! k = BS # h"
proof -
  from assms have "rules ! k \<in> set rules" by simp
  with assms(1) have c: "case parts (fst (rules ! k)) of [] \<Rightarrow> False
     | h # ps \<Rightarrow> starts_with [BS] h \<and> quiet hs (tl h) \<and> list_all (quiet hs) ps \<and> quiet hs (snd (rules ! k))"
    unfolding tidy_def list_all_iff by (auto split: prod.splits)
  then obtain h0 ps where p: "parts (fst (rules ! k)) = h0 # ps"
    by (cases "parts (fst (rules ! k))") auto
  with c have s: "starts_with [BS] h0" and q: "quiet hs (tl h0)" "list_all (quiet hs) ps"
    "quiet hs (snd (rules ! k))" by auto
  from s obtain h where h: "h0 = BS # h" by (cases h0) auto
  have "heads rules ! k = BS # h"
    using assms(2) p h by (simp add: heads_def case_prod_beta)
  with p h q show ?thesis by auto
qed

lemma stage_step:
  assumes heads_match: "\<And>r rep s. (r, rep) \<in> set rules \<Longrightarrow> \<not> starts_with (hd (parts r)) s
            \<Longrightarrow> match_here False r s = None"
    and hits: "\<And>r rep args rest. (r, rep) \<in> set rules \<Longrightarrow> list_all2 fits (gaps r) args
            \<Longrightarrow> \<exists>c. match_here False r (written (parts r) args @ rest) = Some (rest, c)"
    and tidy: "tidy rules hs" and sub: "set (heads rules) \<subseteq> set hs"
    and n: "n < length rules"
  shows "list_all (laid_out_piece rules hs) pieces
    \<Longrightarrow> rx_replace (fst (rules ! n)) (snd (rules ! n)) (staged rules n pieces) = staged rules (Suc n) pieces"
proof -
  define r where "r = fst (rules ! n)"
  define rep where "rep = snd (rules ! n)"
  have rule: "(r, rep) \<in> set rules"
    using n by (simp add: r_def rep_def)
  from tidy_rule [OF tidy n] obtain h ps where
    parts: "parts r = (BS # h) # ps" and head: "heads rules ! n = BS # h"
    unfolding r_def by blast
  have h_in: "BS # h \<in> set hs"
    using sub n head by (metis heads_def length_map nth_mem subsetD)
  have no_match: "match_here False r t = None" if "\<not> starts_with (BS # h) t" for t
    using heads_match [OF rule, of t] parts that by simp
  have inert: "rx_replace_from False r (\<lambda>c. rep) 0 (u @ s) = u @ rx_replace_from False r (\<lambda>c. rep) 0 s"
    if "quiet hs u" for u s
  proof (rule replace_inert)
    fix p v
    assume "u = p @ v" and "v \<noteq> []"
    from quiet_inert [OF that h_in _ this] have "\<not> starts_with (BS # h) (v @ s)" by simp
    then show "match_here False r (v @ s) = None" by (rule no_match)
  qed
  have at_end: "match_here False r [] = None"
    by (rule no_match) simp
  assume "list_all (laid_out_piece rules hs) pieces"
  then have "rx_replace_from False r (\<lambda>c. rep) 0 (concat (map (stage rules n) pieces))
      = concat (map (stage rules (Suc n)) pieces)"
  proof (induction pieces)
    case Nil
    then show ?case by (simp add: at_end)
  next
    case (Cons pc pieces)
    then have IH: "rx_replace_from False r (\<lambda>c. rep) 0 (concat (map (stage rules n) pieces))
        = concat (map (stage rules (Suc n)) pieces)"
      and pc: "laid_out_piece rules hs pc" by auto
    show ?case
    proof (cases pc)
      case (Plain t)
      with pc have "quiet hs t" by simp
      from inert [OF this] IH show ?thesis by (simp add: Plain)
    next
      case (Macro k args)
      with pc have k: "k < length rules" and fit: "list_all2 fits (gaps (fst (rules ! k))) args"
        and args: "list_all (quiet hs) args" by auto
      from tidy_rule [OF tidy k] obtain hk psk where
        partsk: "parts (fst (rules ! k)) = (BS # hk) # psk" and qh: "quiet hs hk"
        and qps: "list_all (quiet hs) psk" and qrep: "quiet hs (snd (rules ! k))"
        and headk: "heads rules ! k = BS # hk" by blast
      define t where "t = (case args of [] \<Rightarrow> concat psk | a # as \<Rightarrow> a @ written psk as)"
      have w: "written (parts (fst (rules ! k))) args = BS # hk @ t"
        by (simp add: partsk written_head t_def)
      have qt: "quiet hs (hk @ t)"
        unfolding t_def by (rule quiet_append [OF qh written_rest_quiet [OF qps args]])
      consider (before) "k < n" | (here) "k = n" | (later) "n < k" by linarith
      then show ?thesis
      proof cases
        case before
        from inert [OF qrep] IH before show ?thesis by (simp add: Macro)
      next
        case here
        from hits [OF rule, of args "concat (map (stage rules n) pieces)"] fit here
        obtain c where "match_here False r (written (parts r) args @ concat (map (stage rules n) pieces))
            = Some (concat (map (stage rules n) pieces), c)"
          unfolding r_def by auto
        from replace_hit [OF this, of "\<lambda>c. rep"] w here IH
        show ?thesis by (simp add: Macro r_def rep_def)
      next
        case later
        have len: "n < length (heads rules)" "k < length (heads rules)"
          using n k by (simp_all add: heads_def)
        from tidy have "all_clash (heads rules)" by (simp add: tidy_def)
        from all_clash_distinct [OF this len] later head headk
        have cl: "clash (BS # h) (BS # hk)" by simp
        have "rx_replace_from False r (\<lambda>c. rep) 0 ((BS # hk @ t) @ s)
            = (BS # hk @ t) @ rx_replace_from False r (\<lambda>c. rep) 0 s" for s
        proof (rule replace_inert)
          fix p v
          assume pv: "BS # hk @ t = p @ v" and v: "v \<noteq> []"
          show "match_here False r (v @ s) = None"
          proof (cases p)
            case Nil
            with pv have "v = (BS # hk) @ t" by simp
            with clash_append [OF cl, of "t @ s"] have "\<not> starts_with (BS # h) (v @ s)" by simp
            then show ?thesis by (rule no_match)
          next
            case (Cons y ys)
            with pv have "hk @ t = ys @ v" by simp
            from quiet_inert [OF qt h_in _ this v] have "\<not> starts_with (BS # h) (v @ s)" by simp
            then show ?thesis by (rule no_match)
          qed
        qed
        with IH later w show ?thesis by (simp add: Macro)
      qed
    qed
  qed
  then show ?thesis
    by (simp add: rx_replace_def staged_def r_def rep_def)
qed

lemma stages:
  assumes heads_match: "\<And>r rep s. (r, rep) \<in> set rules \<Longrightarrow> \<not> starts_with (hd (parts r)) s
            \<Longrightarrow> match_here False r s = None"
    and hits: "\<And>r rep args rest. (r, rep) \<in> set rules \<Longrightarrow> list_all2 fits (gaps r) args
            \<Longrightarrow> \<exists>c. match_here False r (written (parts r) args @ rest) = Some (rest, c)"
    and tidy: "tidy rules hs" and sub: "set (heads rules) \<subseteq> set hs"
    and pieces: "list_all (laid_out_piece rules hs) pieces"
  shows "n \<le> length rules \<Longrightarrow> apply_rules (take n rules) (staged rules 0 pieces) = staged rules n pieces"
proof (induction n)
  case 0
  then show ?case by (simp add: apply_rules_def)
next
  case (Suc n)
  then have n: "n < length rules" by simp
  from Suc have IH: "apply_rules (take n rules) (staged rules 0 pieces) = staged rules n pieces" by simp
  have "apply_rules (take (Suc n) rules) (staged rules 0 pieces)
      = rx_replace (fst (rules ! n)) (snd (rules ! n)) (apply_rules (take n rules) (staged rules 0 pieces))"
    by (simp add: apply_rules_def take_Suc_conv_app_nth [OF n] split: prod.splits)
  also have "\<dots> = staged rules (Suc n) pieces"
    unfolding IH by (rule stage_step [OF heads_match hits tidy sub n pieces])
  finally show ?case .
qed

lemma quiet_no_match:
  assumes "\<And>s. \<not> starts_with h s \<Longrightarrow> match_here False r s = None"
    and "h \<in> set hs" and "starts_with [BS] h"
  shows "quiet hs s \<Longrightarrow> rx_match False r s = None"
proof (induction s)
  case Nil
  from assms(3) have "\<not> starts_with h []" by (cases h) auto
  with assms(1) [of "[]"] show ?case by simp
next
  case (Cons x xs)
  from quiet_inert [OF Cons.prems assms(2,3), of "[]" "x # xs" "[]"]
  have "\<not> starts_with h (x # xs)" by simp
  with assms(1) [of "x # xs"] have "match_here False r (x # xs) = None" by simp
  with Cons.IH [OF quiet_tl [OF Cons.prems]] show ?case by simp
qed

lemma staged_quiet:
  assumes tidy: "tidy rules hs"
  shows "list_all (laid_out_piece rules hs) pieces \<Longrightarrow> quiet hs (staged rules (length rules) pieces)"
proof (induction pieces)
  case Nil
  then show ?case by (simp add: staged_def quiet_Nil)
next
  case (Cons pc pieces)
  then have IH: "quiet hs (staged rules (length rules) pieces)" and pc: "laid_out_piece rules hs pc"
    by auto
  have "quiet hs (stage rules (length rules) pc)"
  proof (cases pc)
    case (Plain t)
    with pc show ?thesis by simp
  next
    case (Macro k args)
    with pc have k: "k < length rules" by simp
    from tidy_rule [OF tidy k] have "quiet hs (snd (rules ! k))" by blast
    with k show ?thesis by (simp add: Macro)
  qed
  with IH show ?case by (simp add: staged_def quiet_append)
qed

lemma quiet_construct_free:
  assumes heads_match: "\<And>r rep s. (r, rep) \<in> set rules \<Longrightarrow> \<not> starts_with (hd (parts r)) s
            \<Longrightarrow> match_here False r s = None"
    and tidy: "tidy rules hs" and sub: "set (heads rules) \<subseteq> set hs"
    and q: "quiet hs s"
  shows "construct_free rules s"
  unfolding construct_free_def list_all_iff
proof (intro ballI)
  fix x
  assume x: "x \<in> set rules"
  then obtain k where k: "k < length rules" and xk: "x = rules ! k"
    by (metis in_set_conv_nth)
  obtain r rep where rr: "x = (r, rep)" by (cases x)
  from tidy_rule [OF tidy k] obtain h ps where
    parts: "parts r = (BS # h) # ps" and head: "heads rules ! k = BS # h"
    using xk rr by (metis fst_conv)
  have h_in: "BS # h \<in> set hs"
    using sub k head by (metis heads_def length_map nth_mem subsetD)
  have "rx_match False r s = None"
  proof (rule quiet_no_match [OF _ h_in _ q])
    fix t
    assume "\<not> starts_with (BS # h) t"
    with heads_match [OF x [unfolded rr], of t] show "match_here False r t = None"
      by (simp add: parts)
  qed simp
  then show "case x of (r, rep) \<Rightarrow> \<not> rx_test False r s"
    by (simp add: rr rx_test_def)
qed

subsection \<open>The two rule lists\<close>

lemma lit_rule_hits:
  "list_all2 fits (gaps (Lit h)) args
    \<Longrightarrow> match_here False (Lit h) (written (parts (Lit h)) args @ rest) = Some (rest, [])"
  by (simp add: lit_hits)

lemma braced_rule_hits:
  "list_all2 fits (gaps (braced_arg h)) args
    \<Longrightarrow> match_here False (braced_arg h) (written (parts (braced_arg h)) args @ rest) = Some (rest, [])"
  using braced_hits [of _ h rest]
  by (auto simp: braced_arg_def list_all2_Cons1 dest!: fits_not)

lemma optional_rule_hits:
  assumes "x \<noteq> []" and "hd x \<noteq> c"
    and "list_all2 fits (gaps (Seq (Lit h) (Seq (Opt (Lit x)) (Lit (c # p))))) args"
  shows "match_here False (Seq (Lit h) (Seq (Opt (Lit x)) (Lit (c # p))))
           (written (parts (Seq (Lit h) (Seq (Opt (Lit x)) (Lit (c # p))))) args @ rest) = Some (rest, [])"
proof -
  have g: "gaps (Opt (Lit x)) = [Opt (Lit x)]" "parts (Opt (Lit x)) = []"
    by (simp_all add: Opt_def)
  from assms(3) obtain a where args: "args = [a]" and "fits (Opt (Lit x)) a"
    by (auto simp: g list_all2_Cons1)
  then have "a = x \<or> a = []" by (simp add: fits_opt)
  from optional_hits [OF this assms(1,2), of h p rest] show ?thesis
    by (simp add: args g)
qed

lemma two_braced_rule_hits:
  assumes "r = seqs [Lit h, Star (Not ''}''), Lit ''}{'', Star (Not ''}''), Lit ''}'']"
    and "list_all2 fits (gaps r) args"
  shows "match_here False r (written (parts r) args @ rest) = Some (rest, [])"
proof -
  from assms obtain a b where args: "args = [a, b]" and "fits (Star (Not ''}'')) a" "fits (Star (Not ''}'')) b"
    by (auto simp: list_all2_Cons1)
  then have "CHR ''}'' \<notin> set a" "CHR ''}'' \<notin> set b" by (auto dest: fits_not)
  from two_braced_hits [OF this, of h rest] show ?thesis
    by (simp add: args assms(1))
qed

lemma simplify_rules_heads:
  "(r, rep) \<in> set simplify_rules \<Longrightarrow> \<not> starts_with (hd (parts r)) s \<Longrightarrow> match_here False r s = None"
  by (auto simp: simplify_rules_def braced_arg_def match_starts_with_head)

lemma simplify_rules_route_heads:
  "(r, rep) \<in> set simplify_rules_route \<Longrightarrow> \<not> starts_with (hd (parts r)) s \<Longrightarrow> match_here False r s = None"
  by (auto simp: simplify_rules_route_def match_starts_with_head)

lemma simplify_rules_hits:
  assumes "(r, rep) \<in> set simplify_rules" and "list_all2 fits (gaps r) args"
  shows "\<exists>c. match_here False r (written (parts r) args @ rest) = Some (rest, c)"
proof -
  from assms(1) have "(\<exists>h. r = Lit h) \<or> (\<exists>h. r = braced_arg h)"
    by (auto simp: simplify_rules_def)
  with assms(2) show ?thesis
    using lit_rule_hits braced_rule_hits by blast
qed

lemma simplify_rules_route_hits:
  assumes "(r, rep) \<in> set simplify_rules_route" and "list_all2 fits (gaps r) args"
  shows "\<exists>c. match_here False r (written (parts r) args @ rest) = Some (rest, c)"
proof -
  from assms(1) consider (lit) h where "r = Lit h"
    | (opt) h where "r = Seq (Lit h) (Seq (Opt (Lit ''5'')) (Lit ''}''))"
    | (two) h where "r = seqs [Lit h, Star (Not ''}''), Lit ''}{'', Star (Not ''}''), Lit ''}'']"
    by (auto simp: simplify_rules_route_def)
  then show ?thesis
  proof cases
    case lit
    with assms(2) lit_rule_hits show ?thesis by blast
  next
    case opt
    with assms(2) optional_rule_hits [of "''5''" "CHR ''}''" h "[]" args rest] show ?thesis by simp
  next
    case two
    with assms(2) two_braced_rule_hits show ?thesis by blast
  qed
qed

lemma tidy_simplify_rules: "tidy simplify_rules (heads simplify_rules)"
  by code_simp

lemma tidy_simplify_rules_class: "tidy simplify_rules (documentclass_line # heads simplify_rules)"
  by code_simp

lemma tidy_simplify_rules_route: "tidy simplify_rules_route (heads simplify_rules_route)"
  by code_simp

subsection \<open>Substrings\<close>

text \<open>
  Text inserted behind a character leaves every substring in place that does not contain this
  character.
\<close>

lemma str_includes_iff: "str_includes s m = (\<exists>u v. s = u @ m @ v)"
proof (induction s)
  case Nil
  show ?case by (cases m) auto
next
  case (Cons c cs)
  show ?case
  proof
    assume "str_includes (c # cs) m"
    then consider "starts_with m (c # cs)" | "str_includes cs m" by auto
    then show "\<exists>u v. c # cs = u @ m @ v"
    proof cases
      case 1
      then obtain v where "c # cs = m @ v" by (auto simp: starts_with_iff)
      then have "c # cs = [] @ m @ v" by simp
      then show ?thesis by blast
    next
      case 2
      with Cons.IH obtain u v where "cs = u @ m @ v" by blast
      then have "c # cs = (c # u) @ m @ v" by simp
      then show ?thesis by blast
    qed
  next
    assume "\<exists>u v. c # cs = u @ m @ v"
    then obtain u v where uv: "c # cs = u @ m @ v" by blast
    show "str_includes (c # cs) m"
    proof (cases u)
      case Nil
      with uv have "starts_with m (c # cs)" by (simp add: starts_with_iff)
      then show ?thesis by simp
    next
      case (Cons y ys)
      with uv have "cs = ys @ m @ v" by simp
      with Cons.IH show ?thesis by auto
    qed
  qed
qed

lemma str_includes_trans:
  assumes "str_includes s t" and "str_includes t m"
  shows "str_includes s m"
proof -
  from assms obtain u v u' v' where "s = u @ t @ v" and "t = u' @ m @ v'"
    unfolding str_includes_iff by blast
  then have "s = (u @ u') @ m @ (v' @ v)" by simp
  then show ?thesis unfolding str_includes_iff by blast
qed

lemma staged_includes_plain: "Plain t \<in> set pieces \<Longrightarrow> str_includes (staged rules n pieces) t"
proof -
  assume "Plain t \<in> set pieces"
  then obtain d1 d2 where "pieces = d1 @ Plain t # d2" by (meson split_list)
  then have "staged rules n pieces = staged rules n d1 @ t @ staged rules n d2"
    by (simp add: staged_def)
  then show ?thesis unfolding str_includes_iff by blast
qed

lemma quiet_excludes:
  assumes "quiet hs s" and "h \<in> set hs" and "starts_with [BS] h"
  shows "\<not> str_includes s h"
proof
  assume "str_includes s h"
  then obtain u v where s: "s = u @ h @ v" unfolding str_includes_iff by blast
  from assms(3) have "h @ v \<noteq> []" by (cases h) auto
  from quiet_inert [OF assms s this, of "[]"] show False
    by (simp add: starts_with_iff)
qed

lemma replace_first_cases:
  "(\<not> str_includes s pat \<and> replace_first pat rep s = s)
   \<or> (\<exists>a b. s = a @ pat @ b \<and> replace_first pat rep s = a @ rep @ b)"
proof (induction s)
  case Nil
  show ?case by (cases pat) auto
next
  case (Cons c cs)
  show ?case
  proof (cases "starts_with pat (c # cs)")
    case True
    then obtain b where b: "c # cs = pat @ b" by (auto simp: starts_with_iff)
    have "drop (length pat) (c # cs) = b" unfolding b by simp
    with True have "replace_first pat rep (c # cs) = [] @ rep @ b" by simp
    moreover from b have "c # cs = [] @ pat @ b" by simp
    ultimately show ?thesis by blast
  next
    case False
    from Cons.IH show ?thesis
    proof
      assume "\<not> str_includes cs pat \<and> replace_first pat rep cs = cs"
      with False show ?thesis by simp
    next
      assume "\<exists>a b. cs = a @ pat @ b \<and> replace_first pat rep cs = a @ rep @ b"
      then obtain a b where "cs = a @ pat @ b" "replace_first pat rep cs = a @ rep @ b" by blast
      with False have "c # cs = (c # a) @ pat @ b \<and> replace_first pat rep (c # cs) = (c # a) @ rep @ b"
        by simp
      then show ?thesis by blast
    qed
  qed
qed

lemma insertion_keeps:
  assumes m: "x \<notin> set m" and s: "str_includes (a @ p @ x # b) m"
  shows "str_includes (a @ p @ x # ins @ b) m"
proof -
  from s obtain u v where uv: "a @ p @ x # b = u @ m @ v" unfolding str_includes_iff by blast
  define i where "i = length a + length p"
  have at: "(a @ p @ x # b) ! i = x"
    by (simp add: i_def nth_append)
  consider (left) "length u + length m \<le> i" | (right) "i < length u"
    | (across) "length u \<le> i" "i < length u + length m" by linarith
  then show ?thesis
  proof cases
    case left
    define w where "w = take (i - length u - length m) v"
    have "a @ p = take i (a @ p @ x # b)" by (simp add: i_def)
    also have "\<dots> = u @ m @ w"
      using left by (simp add: uv w_def)
    finally have ap: "a @ p = u @ m @ w" .
    have "a @ p @ x # ins @ b = (a @ p) @ x # ins @ b" by simp
    also have "\<dots> = u @ m @ (w @ x # ins @ b)" unfolding ap by simp
    finally show ?thesis unfolding str_includes_iff by blast
  next
    case right
    have "b = drop (Suc i) (a @ p @ x # b)" by (simp add: i_def)
    also have "\<dots> = drop (Suc i) u @ m @ v"
      using right by (simp add: uv)
    finally have "a @ p @ x # ins @ b = (a @ p @ x # ins @ drop (Suc i) u) @ m @ v"
      by simp
    then show ?thesis unfolding str_includes_iff by blast
  next
    case across
    have less: "i - length u < length m" using across by linarith
    have "(u @ m @ v) ! i = (m @ v) ! (i - length u)"
      using across(1) by (simp add: nth_append)
    also have "\<dots> = m ! (i - length u)"
      using less by (simp add: nth_append)
    finally have "m ! (i - length u) = x" using at uv by simp
    moreover note less
    ultimately have "x \<in> set m" using nth_mem by blast
    with m show ?thesis by simp
  qed
qed

lemma class_line_insertion_keeps:
  assumes "CHR ''}'' \<notin> set m" and "str_includes s m"
  shows "str_includes (replace_first documentclass_line (documentclass_line @ NL # geometry_line) s) m"
proof -
  define p where "p = BS # ''documentclass[letterpaper,11pt]{article''"
  have dl: "documentclass_line = p @ ''}''" by (simp add: documentclass_line_def p_def)
  from replace_first_cases [of s documentclass_line "documentclass_line @ NL # geometry_line"]
  show ?thesis
  proof
    assume "\<not> str_includes s documentclass_line
      \<and> replace_first documentclass_line (documentclass_line @ NL # geometry_line) s = s"
    with assms(2) show ?thesis by simp
  next
    assume "\<exists>a b. s = a @ documentclass_line @ b
      \<and> replace_first documentclass_line (documentclass_line @ NL # geometry_line) s
          = a @ (documentclass_line @ NL # geometry_line) @ b"
    then obtain a b where s: "s = a @ documentclass_line @ b"
      and r: "replace_first documentclass_line (documentclass_line @ NL # geometry_line) s
          = a @ (documentclass_line @ NL # geometry_line) @ b" by blast
    from assms(2) have "str_includes (a @ p @ CHR ''}'' # b) m" by (simp add: s dl)
    from insertion_keeps [OF assms(1) this, of "NL # geometry_line"]
    show ?thesis unfolding r by (simp add: dl)
  qed
qed

subsection \<open>The simplifier on a laid out source\<close>

text \<open>
  After the last rule every construct has become its replacement text. The result is plain,
  so a second run of the rules finds nothing to rewrite. What remains in the full route is the
  margin declaration, inserted behind the class line unless the geometry package is imported
  without options; the inserted line imports it with an option, so the next pass inserts it
  again.
\<close>

lemma margin_declaration_inserted_by_every_pass:
  "simplifyLatexForOnlineServices documentclass_line = documentclass_line @ NL # geometry_line
   \<and> simplifyLatexForOnlineServices (documentclass_line @ NL # geometry_line)
       = documentclass_line @ NL # geometry_line @ NL # geometry_line"
  by code_simp

lemma apply_rules_laid_out:
  assumes "tidy simplify_rules hs" and "set (heads simplify_rules) \<subseteq> set hs"
    and "list_all (laid_out_piece simplify_rules hs) pieces"
  shows "apply_rules simplify_rules (staged simplify_rules 0 pieces)
      = staged simplify_rules (length simplify_rules) pieces"
    and "quiet hs (staged simplify_rules (length simplify_rules) pieces)"
    and "apply_rules simplify_rules (staged simplify_rules (length simplify_rules) pieces)
      = staged simplify_rules (length simplify_rules) pieces"
proof -
  show "apply_rules simplify_rules (staged simplify_rules 0 pieces)
      = staged simplify_rules (length simplify_rules) pieces"
    using stages [of simplify_rules hs pieces "length simplify_rules", OF simplify_rules_heads
        simplify_rules_hits assms le_refl]
    by simp
  show q: "quiet hs (staged simplify_rules (length simplify_rules) pieces)"
    by (rule staged_quiet [OF assms(1,3)])
  show "apply_rules simplify_rules (staged simplify_rules (length simplify_rules) pieces)
      = staged simplify_rules (length simplify_rules) pieces"
    by (rule apply_rules_construct_free
        [OF quiet_construct_free [OF simplify_rules_heads assms(1,2) q]])
qed

lemma apply_rules_route_laid_out:
  assumes "laid_out simplify_rules_route [] pieces"
  shows "apply_rules simplify_rules_route (staged simplify_rules_route 0 pieces)
      = staged simplify_rules_route (length simplify_rules_route) pieces"
    and "apply_rules simplify_rules_route (staged simplify_rules_route (length simplify_rules_route) pieces)
      = staged simplify_rules_route (length simplify_rules_route) pieces"
proof -
  from assms have d: "list_all (laid_out_piece simplify_rules_route (heads simplify_rules_route)) pieces"
    by (simp add: laid_out_def)
  show "apply_rules simplify_rules_route (staged simplify_rules_route 0 pieces)
      = staged simplify_rules_route (length simplify_rules_route) pieces"
    using stages [of simplify_rules_route "heads simplify_rules_route" pieces "length simplify_rules_route",
        OF simplify_rules_route_heads simplify_rules_route_hits tidy_simplify_rules_route subset_refl d
          le_refl]
    by simp
  have q: "quiet (heads simplify_rules_route) (staged simplify_rules_route (length simplify_rules_route) pieces)"
    by (rule staged_quiet [OF tidy_simplify_rules_route d])
  show "apply_rules simplify_rules_route (staged simplify_rules_route (length simplify_rules_route) pieces)
      = staged simplify_rules_route (length simplify_rules_route) pieces"
    by (rule apply_rules_construct_free
        [OF quiet_construct_free [OF simplify_rules_route_heads tidy_simplify_rules_route subset_refl q]])
qed

lemma simplify_without_class_line:
  assumes "laid_out simplify_rules [documentclass_line] pieces"
  shows "simplifyLatexForOnlineServices (staged simplify_rules 0 pieces)
      = staged simplify_rules (length simplify_rules) pieces"
    and "simplifyLatexForOnlineServices (staged simplify_rules (length simplify_rules) pieces)
      = staged simplify_rules (length simplify_rules) pieces"
proof -
  let ?hs = "documentclass_line # heads simplify_rules"
  from assms have d: "list_all (laid_out_piece simplify_rules ?hs) pieces"
    by (simp add: laid_out_def)
  have sub: "set (heads simplify_rules) \<subseteq> set ?hs" by auto
  note facts = apply_rules_laid_out [OF tidy_simplify_rules_class sub d]
  have "\<not> str_includes (staged simplify_rules (length simplify_rules) pieces) documentclass_line"
    by (rule quiet_excludes [OF facts(2)]) (simp_all add: documentclass_line_def)
  then have n: "replace_first documentclass_line rep (staged simplify_rules (length simplify_rules) pieces)
      = staged simplify_rules (length simplify_rules) pieces" for rep
    by (rule replace_first_absent)
  show "simplifyLatexForOnlineServices (staged simplify_rules 0 pieces)
      = staged simplify_rules (length simplify_rules) pieces"
    by (simp add: simplifyLatexForOnlineServices_def Let_def facts(1) n)
  show "simplifyLatexForOnlineServices (staged simplify_rules (length simplify_rules) pieces)
      = staged simplify_rules (length simplify_rules) pieces"
    by (simp add: simplifyLatexForOnlineServices_def Let_def facts(3) n)
qed

lemma simplify_with_geometry:
  assumes "laid_out simplify_rules [] pieces" and "plain_geometry pieces"
  shows "simplifyLatexForOnlineServices (staged simplify_rules 0 pieces)
      = staged simplify_rules (length simplify_rules) pieces"
    and "simplifyLatexForOnlineServices (staged simplify_rules (length simplify_rules) pieces)
      = staged simplify_rules (length simplify_rules) pieces"
proof -
  from assms(1) have d: "list_all (laid_out_piece simplify_rules (heads simplify_rules)) pieces"
    by (simp add: laid_out_def)
  note facts = apply_rules_laid_out [OF tidy_simplify_rules subset_refl d]
  from assms(2) obtain p where p: "p \<in> set pieces"
    and c: "case p of Plain t \<Rightarrow> str_includes t (BS # ''usepackage{geometry}'') | Macro k args \<Rightarrow> False"
    unfolding plain_geometry_def list_ex_iff by blast
  obtain t where t: "Plain t \<in> set pieces" "str_includes t (BS # ''usepackage{geometry}'')"
  proof (cases p)
    case (Plain t)
    with p c that show ?thesis by simp
  next
    case (Macro k args)
    with c show ?thesis by simp
  qed
  have g: "str_includes (staged simplify_rules (length simplify_rules) pieces) (BS # ''usepackage{geometry}'')"
    by (rule str_includes_trans [OF staged_includes_plain [OF t(1)] t(2)])
  show "simplifyLatexForOnlineServices (staged simplify_rules 0 pieces)
      = staged simplify_rules (length simplify_rules) pieces"
    using g by (simp add: simplifyLatexForOnlineServices_def Let_def facts(1))
  show "simplifyLatexForOnlineServices (staged simplify_rules (length simplify_rules) pieces)
      = staged simplify_rules (length simplify_rules) pieces"
    using g by (simp add: simplifyLatexForOnlineServices_def Let_def facts(3))
qed

subsection \<open>A second pass, and the text outside the constructs\<close>

text \<open>
  C5, as stated: \<open>simplify (simplify x) = simplify x\<close> for every \<open>x\<close>. Removing a
  construct can join the text around it into a new construct, which only a second pass
  rewrites: the first pass leaves \<open>\faPhone\<close>, the second turns it into \<open>Tel:\<close>.
\<close>

theorem simplify_twice_counterexample:
  "simplifyLatexForOnlineServices joined_macro = BS # ''faPhone''
   \<and> simplifyLatexForOnlineServices (simplifyLatexForOnlineServices joined_macro) = ''Tel:''
   \<and> simplifyLatexForOnlineServices_route joined_macro_route = BS # ''faPhone''
   \<and> simplifyLatexForOnlineServices_route (simplifyLatexForOnlineServices_route joined_macro_route)
       = ''Tel:''"
proof -
  have a: "simplifyLatexForOnlineServices joined_macro = BS # ''faPhone''"
    by (simp add: simplify_eval joined_macro_def)
  have b: "simplifyLatexForOnlineServices (BS # ''faPhone'') = ''Tel:''"
    by (simp add: simplify_eval)
  have c: "simplifyLatexForOnlineServices_route joined_macro_route = BS # ''faPhone''"
    by (simp add: simplify_eval joined_macro_route_def)
  have d: "simplifyLatexForOnlineServices_route (BS # ''faPhone'') = ''Tel:''"
    by (simp add: simplify_eval)
  show ?thesis by (simp only: a b c d simp_thms)
qed

text \<open>
  C5, amended: a second pass changes nothing on a source that is laid out in pieces, plain
  texts and constructs written in full. In the full route the margin declaration that follows
  the class line \<open>\documentclass[letterpaper,11pt]{article}\<close> is inserted by every pass, so
  there the source must also either hold no text that starts like this class line, or import
  the geometry package without options in one of its plain texts.
\<close>

theorem simplify_fixed_on_laid_out_source:
  "(laid_out simplify_rules [documentclass_line] pieces
      \<or> (laid_out simplify_rules [] pieces \<and> plain_geometry pieces)
     \<longrightarrow> simplifyLatexForOnlineServices (simplifyLatexForOnlineServices (source_of simplify_rules pieces))
          = simplifyLatexForOnlineServices (source_of simplify_rules pieces))
   \<and> (laid_out simplify_rules_route [] pieces'
     \<longrightarrow> simplifyLatexForOnlineServices_route
            (simplifyLatexForOnlineServices_route (source_of simplify_rules_route pieces'))
          = simplifyLatexForOnlineServices_route (source_of simplify_rules_route pieces'))"
proof (intro conjI impI)
  assume "laid_out simplify_rules [documentclass_line] pieces
    \<or> (laid_out simplify_rules [] pieces \<and> plain_geometry pieces)"
  then show "simplifyLatexForOnlineServices (simplifyLatexForOnlineServices (source_of simplify_rules pieces))
          = simplifyLatexForOnlineServices (source_of simplify_rules pieces)"
    using simplify_without_class_line [of pieces] simplify_with_geometry [of pieces]
    by (auto simp: source_of_def)
next
  assume "laid_out simplify_rules_route [] pieces'"
  from apply_rules_route_laid_out [OF this]
  show "simplifyLatexForOnlineServices_route
            (simplifyLatexForOnlineServices_route (source_of simplify_rules_route pieces'))
          = simplifyLatexForOnlineServices_route (source_of simplify_rules_route pieces')"
    by (simp add: simplifyLatexForOnlineServices_route_def source_of_def)
qed

theorem simplify_fixed_on_laid_out_source_witness:
  "laid_out simplify_rules [documentclass_line] sample_pieces
   \<and> source_of simplify_rules sample_pieces
       = BS # ''documentclass[11pt,a4paper]{article}'' @ NL #
         BS # ''usepackage[margin=0.75in]{geometry}'' @ NL # BS # ''usepackage{multicol}'' @ NL #
         BS # ''begin{document}'' @ NL # BS # ''textbf{A}'' @ BS # BS # NL # BS # ''faPhone 555 '' @
         BS # ''raisebox{2pt}'' @ BS # ''addtolength{'' @ BS # ''oddsidemargin}{-0.5in}MARK'' @ NL #
         BS # ''end{document}''
   \<and> simplifyLatexForOnlineServices (source_of simplify_rules sample_pieces)
       = BS # ''documentclass[11pt,a4paper]{article}'' @ NL #
         BS # ''usepackage[margin=0.75in]{geometry}'' @ NL # ''% multicol simplified'' @ NL #
         BS # ''begin{document}'' @ NL # BS # ''textbf{A}'' @ BS # BS # NL # ''Tel: 555 MARK'' @ NL #
         BS # ''end{document}''
   \<and> simplifyLatexForOnlineServices (simplifyLatexForOnlineServices (source_of simplify_rules sample_pieces))
       = simplifyLatexForOnlineServices (source_of simplify_rules sample_pieces)
   \<and> laid_out simplify_rules_route [] sample_pieces_route
   \<and> source_of simplify_rules_route sample_pieces_route
       = BS # ''documentclass{article}'' @ BS # ''usepackage{fontawesome5}'' @
         BS # ''addtolength{'' @ BS # ''oddsidemargin}{-0.5in}'' @ BS # ''begin{document}'' @
         BS # ''faPhone 555 MARK'' @ BS # ''end{document}''
   \<and> simplifyLatexForOnlineServices_route
         (simplifyLatexForOnlineServices_route (source_of simplify_rules_route sample_pieces_route))
       = simplifyLatexForOnlineServices_route (source_of simplify_rules_route sample_pieces_route)"
proof -
  have a: "laid_out simplify_rules [documentclass_line] sample_pieces"
    by code_simp
  have b: "source_of simplify_rules sample_pieces
       = BS # ''documentclass[11pt,a4paper]{article}'' @ NL #
         BS # ''usepackage[margin=0.75in]{geometry}'' @ NL # BS # ''usepackage{multicol}'' @ NL #
         BS # ''begin{document}'' @ NL # BS # ''textbf{A}'' @ BS # BS # NL # BS # ''faPhone 555 '' @
         BS # ''raisebox{2pt}'' @ BS # ''addtolength{'' @ BS # ''oddsidemargin}{-0.5in}MARK'' @ NL #
         BS # ''end{document}''"
    by (simp add: source_of_def staged_def sample_pieces_def simplify_rules_def braced_arg_def)
  have c: "staged simplify_rules (length simplify_rules) sample_pieces
       = BS # ''documentclass[11pt,a4paper]{article}'' @ NL #
         BS # ''usepackage[margin=0.75in]{geometry}'' @ NL # ''% multicol simplified'' @ NL #
         BS # ''begin{document}'' @ NL # BS # ''textbf{A}'' @ BS # BS # NL # ''Tel: 555 MARK'' @ NL #
         BS # ''end{document}''"
    by (simp add: staged_def sample_pieces_def simplify_rules_def)
  have d: "simplifyLatexForOnlineServices (source_of simplify_rules sample_pieces)
       = staged simplify_rules (length simplify_rules) sample_pieces"
    unfolding source_of_def by (rule simplify_without_class_line(1) [OF a])
  have e: "laid_out simplify_rules_route [] sample_pieces_route"
    by code_simp
  have f: "source_of simplify_rules_route sample_pieces_route
       = BS # ''documentclass{article}'' @ BS # ''usepackage{fontawesome5}'' @
         BS # ''addtolength{'' @ BS # ''oddsidemargin}{-0.5in}'' @ BS # ''begin{document}'' @
         BS # ''faPhone 555 MARK'' @ BS # ''end{document}''"
    by (simp add: source_of_def staged_def sample_pieces_route_def simplify_rules_route_def Opt_def)
  have g: "simplifyLatexForOnlineServices (source_of simplify_rules sample_pieces)
       = BS # ''documentclass[11pt,a4paper]{article}'' @ NL #
         BS # ''usepackage[margin=0.75in]{geometry}'' @ NL # ''% multicol simplified'' @ NL #
         BS # ''begin{document}'' @ NL # BS # ''textbf{A}'' @ BS # BS # NL # ''Tel: 555 MARK'' @ NL #
         BS # ''end{document}''"
    by (simp only: c d)
  have h: "simplifyLatexForOnlineServices (simplifyLatexForOnlineServices (source_of simplify_rules sample_pieces))
       = simplifyLatexForOnlineServices (source_of simplify_rules sample_pieces)"
    using simplify_fixed_on_laid_out_source [of sample_pieces sample_pieces_route] a by blast
  have i: "simplifyLatexForOnlineServices_route
         (simplifyLatexForOnlineServices_route (source_of simplify_rules_route sample_pieces_route))
       = simplifyLatexForOnlineServices_route (source_of simplify_rules_route sample_pieces_route)"
    using simplify_fixed_on_laid_out_source [of sample_pieces sample_pieces_route] e by blast
  show ?thesis
    by (intro conjI) (rule a b g h e f i)+
qed

text \<open>
  C6, as stated: a plain-text substring of the body, one that matches none of the constructs,
  is found unchanged in the simplified source. Here the marker follows a commented-out line
  that holds an unclosed layout command and a package import. In the source every match of
  every pattern ends before the marker; once the import has been replaced by its comment
  text, the brace that ended the layout command is gone and its pattern runs on through the
  marker.
\<close>

theorem marker_deleted_counterexample:
  "str_includes commented_raisebox ''MARK''
   \<and> ends_before simplify_rules ''MARK'' commented_raisebox
   \<and> simplifyLatexForOnlineServices commented_raisebox = ''% ''
   \<and> str_includes commented_addtolength ''MARK''
   \<and> ends_before simplify_rules_route ''MARK'' commented_addtolength
   \<and> simplifyLatexForOnlineServices_route commented_addtolength = ''% ''"
proof -
  have a: "str_includes commented_raisebox ''MARK''"
    by (simp add: commented_raisebox_def)
  have b: "simplifyLatexForOnlineServices commented_raisebox = ''% ''"
    by (simp add: simplify_eval commented_raisebox_def)
  have c: "str_includes commented_addtolength ''MARK''"
    by (simp add: commented_addtolength_def)
  have d: "simplifyLatexForOnlineServices_route commented_addtolength = ''% ''"
    by (simp add: simplify_eval commented_addtolength_def)
  have e: "ends_before simplify_rules ''MARK'' commented_raisebox"
    by code_simp
  have f: "ends_before simplify_rules_route ''MARK'' commented_addtolength"
    by code_simp
  show ?thesis by (simp only: a b c d e f simp_thms)
qed

text \<open>
  C6, amended: in a source that is laid out in pieces, plain texts and constructs written in
  full, every substring of a plain text is a substring of the simplified source. In the full
  route the margin declaration is inserted behind the closing brace of the class line, so
  there the substring is one without a closing brace.
\<close>

theorem plain_text_survives:
  "(laid_out simplify_rules [] pieces \<and> Plain t \<in> set pieces \<and> str_includes t marker
      \<and> CHR ''}'' \<notin> set marker
     \<longrightarrow> str_includes (simplifyLatexForOnlineServices (source_of simplify_rules pieces)) marker)
   \<and> (laid_out simplify_rules_route [] pieces' \<and> Plain t' \<in> set pieces' \<and> str_includes t' marker'
     \<longrightarrow> str_includes (simplifyLatexForOnlineServices_route (source_of simplify_rules_route pieces'))
           marker')"
proof (intro conjI impI)
  assume a: "laid_out simplify_rules [] pieces \<and> Plain t \<in> set pieces \<and> str_includes t marker
    \<and> CHR ''}'' \<notin> set marker"
  then have d: "list_all (laid_out_piece simplify_rules (heads simplify_rules)) pieces"
    by (simp add: laid_out_def)
  note facts = apply_rules_laid_out [OF tidy_simplify_rules subset_refl d]
  from a have m: "str_includes (staged simplify_rules (length simplify_rules) pieces) marker"
    using str_includes_trans [OF staged_includes_plain] by blast
  from a class_line_insertion_keeps [OF _ m] m
  show "str_includes (simplifyLatexForOnlineServices (source_of simplify_rules pieces)) marker"
    by (simp add: simplifyLatexForOnlineServices_def Let_def source_of_def facts(1))
next
  assume a: "laid_out simplify_rules_route [] pieces' \<and> Plain t' \<in> set pieces' \<and> str_includes t' marker'"
  then have l: "laid_out simplify_rules_route [] pieces'" by simp
  from a have "str_includes (staged simplify_rules_route (length simplify_rules_route) pieces') marker'"
    using str_includes_trans [OF staged_includes_plain] by blast
  then show "str_includes (simplifyLatexForOnlineServices_route (source_of simplify_rules_route pieces'))
           marker'"
    by (simp add: simplifyLatexForOnlineServices_route_def source_of_def
        apply_rules_route_laid_out(1) [OF l])
qed

theorem plain_text_survives_witness:
  "laid_out simplify_rules [] sample_pieces_class
   \<and> source_of simplify_rules sample_pieces_class
       = BS # ''documentclass[letterpaper,11pt]{article}'' @ BS # ''pagestyle{fancy}'' @
         BS # ''begin{document}'' @ BS # ''input{glyphtounicode} a@b.c '' @
         BS # ''renewcommand'' @ BS # ''labelitemi{$'' @ BS # ''circ$}MARK'' @ BS # ''end{document}''
   \<and> str_includes (simplifyLatexForOnlineServices (source_of simplify_rules sample_pieces_class)) ''MARK''
   \<and> laid_out simplify_rules_route [] sample_pieces_route
   \<and> str_includes
        (simplifyLatexForOnlineServices_route (source_of simplify_rules_route sample_pieces_route))
        ''555 MARK''"
proof -
  have a: "laid_out simplify_rules [] sample_pieces_class"
    by code_simp
  have b: "source_of simplify_rules sample_pieces_class
       = BS # ''documentclass[letterpaper,11pt]{article}'' @ BS # ''pagestyle{fancy}'' @
         BS # ''begin{document}'' @ BS # ''input{glyphtounicode} a@b.c '' @
         BS # ''renewcommand'' @ BS # ''labelitemi{$'' @ BS # ''circ$}MARK'' @ BS # ''end{document}''"
    by (simp add: source_of_def staged_def sample_pieces_class_def simplify_rules_def braced_arg_def)
  have c: "Plain (''MARK'' @ BS # ''end{document}'') \<in> set sample_pieces_class"
    by (simp add: sample_pieces_class_def)
  have d: "str_includes (''MARK'' @ BS # ''end{document}'') ''MARK''"
    by simp
  have e: "laid_out simplify_rules_route [] sample_pieces_route"
    by code_simp
  have f: "Plain ('' 555 MARK'' @ BS # ''end{document}'') \<in> set sample_pieces_route"
    by (simp add: sample_pieces_route_def)
  have g: "str_includes ('' 555 MARK'' @ BS # ''end{document}'') ''555 MARK''"
    by simp
  have h: "CHR ''}'' \<notin> set ''MARK''"
    by simp
  note survives = plain_text_survives [of sample_pieces_class "''MARK'' @ BS # ''end{document}''"
      "''MARK''" sample_pieces_route "'' 555 MARK'' @ BS # ''end{document}''" "''555 MARK''"]
  have i: "str_includes (simplifyLatexForOnlineServices (source_of simplify_rules sample_pieces_class))
      ''MARK''"
    using survives a c d h by blast
  have j: "str_includes
        (simplifyLatexForOnlineServices_route (source_of simplify_rules_route sample_pieces_route))
        ''555 MARK''"
    using survives e f g by blast
  show ?thesis
    by (intro conjI) (rule a b i e j)+
qed

subsection \<open>The experience parser\<close>

lemma experience_categorize:
  "experience (categorize s sec)
     = (if classified_experience sec then parseExperienceSection (content sec) else experience s)"
  by (simp add: categorize_def classified_experience_def Let_def)

lemma experience_unclassified:
  "list_all (\<lambda>s. \<not> classified_experience s) secs \<Longrightarrow>
   experience (foldl categorize s secs) = experience s"
  by (induction secs arbitrary: s) (simp_all add: experience_categorize)

lemma experience_last_classified:
  assumes "classified_experience sec" and "list_all (\<lambda>s. \<not> classified_experience s) after"
  shows "experience (foldl categorize s (before @ sec # after)) = parseExperienceSection (content sec)"
  using assms by (simp add: experience_unclassified experience_categorize)

lemma lit_prefix_before_backslash:
  "BS \<notin> set l \<Longrightarrow> lit_prefix False l (u @ BS # t) \<Longrightarrow> starts_with l u"
proof (induction l arbitrary: u)
  case Nil
  then show ?case by simp
next
  case (Cons p ps)
  then show ?case by (cases u) auto
qed

lemma no_prefix_no_match:
  "\<not> lit_prefix False l s \<Longrightarrow> match_here False (Seq (Lit l) r) s = None"
  by (simp add: match_here_def)

lemma exec_skips_to_macro:
  assumes "BS \<notin> set l" and "\<not> str_includes a (BS # l)"
  shows "rx_exec_from False (Seq (Lit (BS # l)) r) 0 (a @ BS # t)
     = rx_exec_from False (Seq (Lit (BS # l)) r) 0 (BS # t)"
  using assms(2)
proof (induction a)
  case Nil
  then show ?case by simp
next
  case (Cons x xs)
  from Cons.prems have n: "\<not> starts_with (BS # l) (x # xs)" and r: "\<not> str_includes xs (BS # l)"
    by simp_all
  have "\<not> lit_prefix False (BS # l) ((x # xs) @ BS # t)"
    using n lit_prefix_before_backslash [OF assms(1), of xs t] by auto
  then have "match_here False (Seq (Lit (BS # l)) r) ((x # xs) @ BS # t) = None"
    by (rule no_prefix_no_match)
  with Cons.IH [OF r] show ?case by simp
qed

lemma acme_matched:
  "\<exists>rest. rx_exec_from False resumeSubheading 0 (acme_macro @ b)
     = [(4, ''NYC''), (3, ''Engineer''), (2, ''2020-2022''), (1, ''Acme Corp'')] # rest"
  by (simp add: acme_macro_def resumeSubheading_def rx_shapes is_space_def)

lemma acme_parsed:
  assumes "\<not> str_includes a (BS # ''resumeSubheading'')"
  shows "acme_entry \<in> set (parseExperienceSection (a @ acme_macro @ b))"
proof -
  have "rx_exec_all resumeSubheading (a @ acme_macro @ b)
      = rx_exec_from False resumeSubheading 0 (acme_macro @ b)"
    unfolding rx_exec_all_def
    using exec_skips_to_macro [of "''resumeSubheading''" a _
        "''resumeSubheading{Acme Corp}{2020-2022}{Engineer}{NYC}'' @ b"] assms
    by (simp add: resumeSubheading_def acme_macro_def)
  with acme_matched [of b] obtain rest where
    "rx_exec_all resumeSubheading (a @ acme_macro @ b)
      = [(4, ''NYC''), (3, ''Engineer''), (2, ''2020-2022''), (1, ''Acme Corp'')] # rest"
    by auto
  then have "structured_experience (a @ acme_macro @ b)
      = acme_entry # (map from_resumeSubheading rest
         @ map from_cventry (rx_exec_all cventry (a @ acme_macro @ b))
         @ map from_other (rx_exec_all job_macro (a @ acme_macro @ b))
         @ map from_other (rx_exec_all bold_italic_years (a @ acme_macro @ b)))"
    by (simp add: structured_experience_def from_resumeSubheading_def acme_entry_def
        grp_or_empty_def grp_def)
  then show ?thesis
    by (simp add: parseExperienceSection_def)
qed

lemma sections_two_work:
  "extractAllSections two_work_sections
     = [\<lparr>title = ''Experience'', content = acme_macro\<rparr>,
        \<lparr>title = ''Volunteer Work'', content = ''Helped out''\<rparr>]"
  by code_simp

lemma sections_acme_resume:
  "extractAllSections acme_resume
     = [\<lparr>title = ''Work Experience'', content = ''Jobs: '' @ acme_macro @ '' done''\<rparr>,
        \<lparr>title = ''Education'', content = ''MIT''\<rparr>]"
  by code_simp

text \<open>
  C8, as stated: when the markup has a section classified as experience whose body holds the
  structured macro, the parsed experience list has the entry. Each section classified as
  experience overwrites the list of the one before it: here the section \<open>Experience\<close> holds
  the macro, the later section \<open>Volunteer Work\<close> is classified as experience too, and the
  parsed list is the empty list of its plain text.
\<close>

theorem later_section_overwrites_counterexample:
  "extractAllSections two_work_sections
     = [\<lparr>title = ''Experience'', content = acme_macro\<rparr>,
        \<lparr>title = ''Volunteer Work'', content = ''Helped out''\<rparr>]
   \<and> classified_experience \<lparr>title = ''Experience'', content = acme_macro\<rparr>
   \<and> acme_entry \<in> set (parseExperienceSection acme_macro)
   \<and> experience (parseLatexContent two_work_sections) = []"
proof -
  have c1: "classified_experience \<lparr>title = ''Experience'', content = acme_macro\<rparr>"
    by code_simp
  have c2: "classified_experience \<lparr>title = ''Volunteer Work'', content = ''Helped out''\<rparr>"
    by code_simp
  have e: "parseExperienceSection ''Helped out'' = []"
    by code_simp
  have "experience (parseLatexContent two_work_sections)
      = parseExperienceSection (content \<lparr>title = ''Volunteer Work'', content = ''Helped out''\<rparr>)"
    unfolding parseLatexContent_def Let_def sections_two_work
    using experience_last_classified
      [of "\<lparr>title = ''Volunteer Work'', content = ''Helped out''\<rparr>" "[]" _
        "[\<lparr>title = ''Experience'', content = acme_macro\<rparr>]"] c2
    by simp
  with e have x: "experience (parseLatexContent two_work_sections) = []"
    by simp
  have p: "acme_entry \<in> set (parseExperienceSection acme_macro)"
    using acme_parsed [of "[]" "[]"] by simp
  show ?thesis
    using sections_two_work c1 p x by simp
qed

text \<open>
  C8, amended: the parsed experience list has the entry with company \<open>Acme Corp\<close>, period
  \<open>2020-2022\<close>, position \<open>Engineer\<close> and location \<open>NYC\<close> when the section that holds the
  macro is the last of the extracted sections that is classified as experience (no summary
  word in its title, and one of \<open>experience\<close>, \<open>work\<close>, \<open>employment\<close>), and the macro is
  the first occurrence of \<open>\resumeSubheading\<close> in the body of that section.
\<close>

theorem structured_macro_gives_entry:
  assumes "extractAllSections latex = before @ sec # after"
    and "classified_experience sec"
    and "list_all (\<lambda>s. \<not> classified_experience s) after"
    and "content sec = a @ acme_macro @ b"
    and "\<not> str_includes a (BS # ''resumeSubheading'')"
  shows "acme_entry \<in> set (experience (parseLatexContent latex))"
proof -
  have "experience (parseLatexContent latex) = parseExperienceSection (content sec)"
    unfolding parseLatexContent_def Let_def assms(1)
    by (rule experience_last_classified [OF assms(2,3)])
  with assms(4,5) show ?thesis
    by (simp add: acme_parsed)
qed

theorem structured_macro_gives_entry_witness:
  "acme_entry \<in> set (experience (parseLatexContent acme_resume))"
proof -
  have s: "extractAllSections acme_resume
      = [] @ \<lparr>title = ''Work Experience'', content = ''Jobs: '' @ acme_macro @ '' done''\<rparr>
           # [\<lparr>title = ''Education'', content = ''MIT''\<rparr>]"
    using sections_acme_resume by simp
  have c: "classified_experience
      \<lparr>title = ''Work Experience'', content = ''Jobs: '' @ acme_macro @ '' done''\<rparr>"
    by code_simp
  have n: "list_all (\<lambda>s. \<not> classified_experience s) [\<lparr>title = ''Education'', content = ''MIT''\<rparr>]"
    by code_simp
  have b: "content \<lparr>title = ''Work Experience'', content = ''Jobs: '' @ acme_macro @ '' done''\<rparr>
      = ''Jobs: '' @ acme_macro @ '' done''"
    by simp
  have f: "\<not> str_includes ''Jobs: '' (BS # ''resumeSubheading'')"
    by simp
  show ?thesis
    by (rule structured_macro_gives_entry [OF s c n b f])
qed

lemma match_needs_backslash:
  "BS \<notin> set s \<Longrightarrow> match_here False (Seq (Lit (BS # l)) r) s = None"
  by (cases s) (simp_all add: match_here_def)

lemma exec_needs_backslash:
  "BS \<notin> set s \<Longrightarrow> rx_exec_from False (Seq (Lit (BS # l)) r) 0 s = []"
  by (induction s) (simp_all add: match_needs_backslash)

lemma structured_needs_backslash:
  "BS \<notin> set s \<Longrightarrow> structured_experience s = []"
  by (simp add: structured_experience_def rx_exec_all_def resumeSubheading_def cventry_def
      job_macro_def bold_italic_years_def exec_needs_backslash)

lemma split_on_absent: "sep \<notin> set s \<Longrightarrow> split_on sep s = [s]"
  by (induction s) auto

lemma software_engineer_line:
  "clean_line ''Software Engineer'' = ''Software Engineer''
   \<and> \<not> rx_test False year ''Software Engineer'' \<and> rx_test True role_words ''Software Engineer''"
  by code_simp

lemma years_line:
  "clean_line ''2021-2023'' = ''2021-2023'' \<and> rx_test False year ''2021-2023''"
  by code_simp

text \<open>
  C9, as stated: for a body of the two lines \<open>Software Engineer\<close> and \<open>2021-2023\<close> the parsed
  experience list has an entry with that position and that period. The entry under
  construction gets both, but an entry is pushed only once it has a position and a company,
  and nothing is pushed after the last line: the list is empty.
\<close>

theorem two_lines_give_no_entry_counterexample:
  "heuristic_experience [''Software Engineer''] empty_entry = []
   \<and> classify_line ''2021-2023'' (classify_line ''Software Engineer'' empty_entry)
       = \<lparr>company = None, period = Some ''2021-2023'', position = Some ''Software Engineer'',
          location = None, details = None\<rparr>
   \<and> parseExperienceSection (''Software Engineer'' @ NL # ''2021-2023'') = []"
  by code_simp

text \<open>
  C9, amended: the heuristic takes the line \<open>Software Engineer\<close> as the position and the line
  \<open>2021-2023\<close> as the period of the entry under construction; the entry reaches the list
  when a following line gives the company, a line that after cleaning is not empty, has no
  four digits in a row and none of the role words. With such a third line the list is
  exactly that one entry.
\<close>

theorem heuristic_entry_needs_company:
  assumes "BS \<notin> set c" and "NL \<notin> set c" and "clean_line c \<noteq> []"
    and "\<not> rx_test False year (clean_line c)" and "\<not> rx_test True role_words (clean_line c)"
  shows "parseExperienceSection (''Software Engineer'' @ NL # ''2021-2023'' @ NL # c)
     = [\<lparr>company = Some (clean_line c), period = Some ''2021-2023'',
         position = Some ''Software Engineer'', location = None, details = None\<rparr>]"
proof -
  have s: "structured_experience (''Software Engineer'' @ NL # ''2021-2023'' @ NL # c) = []"
    using assms(1) by (intro structured_needs_backslash) simp
  have lines: "split_on NL (''Software Engineer'' @ NL # ''2021-2023'' @ NL # c)
      = [''Software Engineer'', ''2021-2023'', c]"
    using assms(2) by (simp add: split_on_absent)
  have "heuristic_experience [''Software Engineer'', ''2021-2023'', c] empty_entry
      = [\<lparr>company = Some (clean_line c), period = Some ''2021-2023'',
          position = Some ''Software Engineer'', location = None, details = None\<rparr>]"
    using assms(3-5)
    by (simp add: software_engineer_line years_line classify_line_def truthy_def empty_entry_def)
  then show ?thesis
    by (simp only: parseExperienceSection_def s lines Let_def list.size) simp
qed

theorem heuristic_entry_needs_company_witness:
  "parseExperienceSection (''Software Engineer'' @ NL # ''2021-2023'' @ NL # ''Acme Corp'')
     = [\<lparr>company = Some ''Acme Corp'', period = Some ''2021-2023'',
         position = Some ''Software Engineer'', location = None, details = None\<rparr>]"
proof -
  have c: "clean_line ''Acme Corp'' = ''Acme Corp'' \<and> \<not> rx_test False year ''Acme Corp''
      \<and> \<not> rx_test True role_words ''Acme Corp''"
    by code_simp
  have n: "BS \<notin> set ''Acme Corp'' \<and> NL \<notin> set ''Acme Corp''"
    by simp
  show ?thesis
    using heuristic_entry_needs_company [of "''Acme Corp''"] c n by simp
qed

subsection \<open>The fallback path\<close>

text \<open>
  Every attempt of the client ends in null when each response is a transport error, has a
  status that is not 2xx, or is at or below the floor. (A wrong content type is not enough
  for the alternative service of the full route.)
\<close>

lemma run_methods_null:
  assumes "\<And>req. unacceptable (snd (net req))" and "result a = None"
    and "list_all (\<lambda>m. accepts m = typed_pdf \<or> accepts m = untyped_pdf) ms"
  shows "result (run_methods net ms a) = None"
  using assms(2,3)
proof (induction ms arbitrary: a)
  case Nil
  then show ?case by simp
next
  case (Cons m ms)
  obtain t r where f: "fetch net (abort_after m) (request m) = (t, r)"
    by (cases "fetch net (abort_after m) (request m)")
  have u: "unacceptable r"
    using f assms(1) [of "request m"]
    by (auto simp: fetch_def unacceptable_def split: prod.splits option.splits if_splits)
  have acc: "r = Resolved resp \<Longrightarrow> accepts m resp = None" for resp
    using u Cons.prems(2) by (auto simp: unacceptable_def typed_pdf_def untyped_pdf_def)
  show ?case
    using Cons f acc by (cases r) (simp_all add: Let_def)
qed

lemma tryLatexOnline_null:
  assumes "\<And>req. unacceptable (snd (net req))"
  shows "result (tryLatexOnline net t) = None"
  unfolding tryLatexOnline_def
  by (rule run_methods_null [OF assms]) (simp_all add: no_attempt_def methods_def)

lemma compile_all_null:
  assumes "race 30000 (tryLatexOnline net source) = None"
    and "race 25000 (tryLatexOnline net (simplifyLatexForOnlineServices source)) = None"
  shows "fst (compileLatexToPDF net source) = None"
  using assms by (simp add: compileLatexToPDF_def compileLatexToPDF_with_def Let_def)

text \<open>
  C1: a source that passes the four checks, on a network where every attempt of the client
  ends in null within its deadline or not at all, in an environment whose PDF library
  serialises every document to at least one byte: the full compile route returns
  \<open>success: true\<close> with the bytes of the document that the fallback renderer draws from
  the parsed source. There is no error value on this path; the model has none because the
  parser and the renderer apply no operation that can throw to a value they build.
\<close>

theorem fallback_returns_document:
  assumes "str_includes source (BS # ''documentclass'')"
    and "str_includes source (BS # ''begin{document}'')"
    and "str_includes source (BS # ''end{document}'')"
    and "count_char CHR ''{'' source = count_char CHR ''}'' source"
    and "\<And>t. race 30000 (tryLatexOnline net t) = None"
    and "\<And>t. race 25000 (tryLatexOnline net t) = None"
    and "\<And>d. output_arraybuffer lib d \<noteq> []"
  shows "returned (simulateLatexCompilation lib net source)
     = \<lparr>success = True,
        pdfBuffer = Some (output_arraybuffer lib (generatePDFWithPDFKit lib (parseLatexContent source))),
        errors = None, warnings = Some [], logs = Some [''LaTeX compilation successful'']\<rparr>
     \<and> 0 < length (output_arraybuffer lib (generatePDFWithPDFKit lib (parseLatexContent source)))"
proof -
  have "fst (compileLatexToPDF net source) = None"
    using assms(5,6) by (intro compile_all_null) simp_all
  then have "fst (generateSamplePDF lib net source)
      = output_arraybuffer lib (generatePDFWithPDFKit lib (parseLatexContent source))"
    by (cases "compileLatexToPDF net source") (simp add: generateSamplePDF_def)
  then show ?thesis
    using assms(1-4,7)
    by (cases "generateSamplePDF lib net source")
       (simp add: simulateLatexCompilation_def simulateLatexCompilation_with_def Let_def)
qed

lemma offline_null: "result (tryLatexOnline offline t) = None"
  by (simp add: tryLatexOnline_def methods_def no_attempt_def fetch_def offline_def latexonline_def)

theorem fallback_returns_document_witness:
  "success (returned (simulateLatexCompilation sample_jspdf offline minimal_document))
   \<and> pdfBuffer (returned (simulateLatexCompilation sample_jspdf offline minimal_document))
       = Some (output_arraybuffer sample_jspdf
                 (generatePDFWithPDFKit sample_jspdf (parseLatexContent minimal_document)))
   \<and> 0 < length (output_arraybuffer sample_jspdf
                 (generatePDFWithPDFKit sample_jspdf (parseLatexContent minimal_document)))"
proof -
  have v: "str_includes minimal_document (BS # ''documentclass'')"
    "str_includes minimal_document (BS # ''begin{document}'')"
    "str_includes minimal_document (BS # ''end{document}'')"
    "count_char CHR ''{'' minimal_document = count_char CHR ''}'' minimal_document"
    by (simp_all add: minimal_document_def count_char_def)
  have n: "race d (tryLatexOnline offline t) = None" for d t
    by (simp add: race_def offline_null)
  have l: "output_arraybuffer sample_jspdf d \<noteq> []" for d
    by (simp add: sample_jspdf_def)
  show ?thesis
    using fallback_returns_document [OF v n n l] by simp
qed

subsection \<open>The header name\<close>

lemma appendsI: "(\<And>c. \<exists>ops. page (doc (f c)) = page (doc c) @ ops) \<Longrightarrow> appends f"
  by (simp add: appends_def)

lemma appendsD: "appends f \<Longrightarrow> \<exists>ops. page (doc (f c)) = page (doc c) @ ops"
  by (simp add: appends_def)

lemma steps_Cons: "steps (f # fs) c = steps fs (f c)"
  by (simp add: steps_def)

lemma steps_Nil: "steps [] c = c"
  by (simp add: steps_def)

lemma appends_steps: "list_all appends fs \<Longrightarrow> appends (steps fs)"
proof (induction fs)
  case Nil
  then show ?case by (simp add: appends_def steps_Nil)
next
  case (Cons f fs)
  then have f: "appends f" and r: "appends (steps fs)" by simp_all
  show ?case
  proof (rule appendsI)
    fix c
    from appendsD [OF f, of c] obtain o1 where o1: "page (doc (f c)) = page (doc c) @ o1" ..
    from appendsD [OF r, of "f c"] obtain o2 where "page (doc (steps fs (f c))) = page (doc (f c)) @ o2" ..
    with o1 show "\<exists>ops. page (doc (steps (f # fs) c)) = page (doc c) @ ops"
      by (simp add: steps_Cons)
  qed
qed

lemma appends_setFontSize [simp]: "appends (setFontSize n)"
  by (simp add: appends_def setFontSize_def)

lemma appends_setFont [simp]: "appends (setFont nm st)"
  by (simp add: appends_def setFont_def)

lemma appends_text_at [simp]: "appends (text_at s l)"
  by (simp add: appends_def text_at_def)

lemma appends_down [simp]: "appends (down n)"
  by (simp add: appends_def down_def)

lemma appends_draw_text [simp]: "appends (draw_text s n)"
  by (simp add: appends_def draw_text_def down_def text_at_def)

lemma appends_only_if [simp]: "appends f \<Longrightarrow> appends (only_if b f)"
  by (simp add: appends_def only_if_def)

lemma appends_dependent: "(\<And>c'. appends (g c')) \<Longrightarrow> appends (\<lambda>c. g c c)"
  by (simp add: appends_def)

lemma appends_steps_map: "(\<And>v. appends (f v)) \<Longrightarrow> appends (steps (map f vs))"
  by (rule appends_steps) (simp add: list_all_iff)

lemma appends_wrapped [simp]: "appends (wrapped lib s)"
  unfolding wrapped_def
  by (rule appends_dependent [of "\<lambda>c'. steps (map (\<lambda>line. draw_text line 6) (splitTextToSize lib (doc c') s 170))"])
     (simp add: appends_steps_map)

lemma appends_heading [simp]: "appends (heading s)"
  unfolding heading_def by (rule appends_steps) simp

lemma appends_draw_contact [simp]: "appends (draw_contact ct)"
  unfolding draw_contact_def by (rule appends_steps) simp

lemma appends_draw_experience [simp]: "appends (draw_experience e)"
  unfolding draw_experience_def by (rule appends_steps) simp

lemma appends_draw_education [simp]: "appends (draw_education e)"
  unfolding draw_education_def by (rule appends_steps) simp

lemma appends_draw_skill [simp]: "appends (draw_skill lib s)"
  unfolding draw_skill_def by (rule appends_steps) simp

lemma appends_draw_project [simp]: "appends (draw_project lib p)"
  unfolding draw_project_def by (rule appends_steps) (simp add: appends_steps)

lemma appends_raw_lines:
  "appends (\<lambda>c. steps (map (\<lambda>line. only_if (P line) (draw_text line 6))
                       (take 3 (splitTextToSize lib (doc c) t 170))) c)"
  by (rule appends_dependent
        [of "\<lambda>c'. steps (map (\<lambda>line. only_if (P line) (draw_text line 6))
                        (take 3 (splitTextToSize lib (doc c') t 170)))"])
     (simp add: appends_steps_map)

lemma appends_draw_raw_section [simp]: "appends (draw_raw_section lib sec)"
proof -
  have "appends (steps [heading (toUpperCase (title sec)), setFontSize 9, setFont ''helvetica'' ''normal'',
      (\<lambda>c. steps (map (\<lambda>line. only_if (0 < length (trim line)) (draw_text line 6))
                    (take 3 (splitTextToSize lib (doc c) (take 200 (clean_line_plain (content sec))) 170))) c),
      down 8])"
    by (rule appends_steps) (simp add: appends_raw_lines)
  then show ?thesis
    by (simp add: appends_def draw_raw_section_def)
qed

lemma appends_achievements:
  "appends (\<lambda>c. only_if (yPos c < 250) (steps (heading ''ACHIEVEMENTS'' # map (draw_project lib) ps)) c)"
  by (rule appends_dependent
        [of "\<lambda>c'. only_if (yPos c' < 250) (steps (heading ''ACHIEVEMENTS'' # map (draw_project lib) ps))"])
     (simp add: appends_steps list_all_iff)

lemma header_first:
  "\<exists>ops. page (generatePDFWithPDFKit lib sections)
     = header_op (if resume_name sections \<noteq> [] then resume_name sections else ''Resume Preview'') # ops"
proof -
  let ?name = "if resume_name sections \<noteq> [] then resume_name sections else ''Resume Preview''"
  let ?rest = "[only_if (resume_title sections \<noteq> [])
          (steps [setFontSize 14, setFont ''helvetica'' ''normal'', draw_text (resume_title sections) 12]),
        draw_contact (resume_contact sections),
        only_if (summary sections \<noteq> [])
          (steps [down 5, heading ''PROFESSIONAL SUMMARY'', setFontSize 9, setFont ''helvetica'' ''normal'',
                  wrapped lib (summary sections), down 8]),
        only_if (0 < length (experience sections))
          (steps (heading ''PROFESSIONAL EXPERIENCE'' # map draw_experience (take 3 (experience sections)))),
        only_if (0 < length (education sections))
          (steps (heading ''EDUCATION'' # map draw_education (take 2 (education sections)))),
        only_if (0 < length (skills sections))
          (steps (heading ''TECHNICAL SKILLS'' # map (draw_skill lib) (skills sections))),
        only_if (0 < length (projects sections))
          (steps (heading ''PROJECTS'' # map (draw_project lib) (take 3 (projects sections)))),
        only_if (0 < length (achievements sections))
          (\<lambda>c. only_if (yPos c < 250)
                 (steps (heading ''ACHIEVEMENTS'' # map (draw_project lib) (take 3 (achievements sections)))) c),
        steps (map (draw_raw_section lib) (rawSections sections))]"
  let ?c = "draw_text ?name 15 (setFont ''helvetica'' ''bold'' (setFontSize 20 \<lparr>doc = new_jsPDF, yPos = 20\<rparr>))"
  have r: "appends (steps ?rest)"
    by (rule appends_steps) (simp add: appends_steps list_all_iff appends_achievements)
  have h: "page (doc ?c) = [header_op ?name]"
    by (simp add: draw_text_def down_def text_at_def setFont_def setFontSize_def new_jsPDF_def header_op_def)
  have g: "generatePDFWithPDFKit lib sections = doc (steps ?rest ?c)"
    by (simp add: generatePDFWithPDFKit_def steps_Cons)
  from appendsD [OF r, of ?c] h g show ?thesis
    by auto
qed

lemma resume_name_categorize: "resume_name (categorize s sec) = resume_name s"
  by (simp add: categorize_def Let_def)

lemma resume_name_foldl: "resume_name (foldl categorize s secs) = resume_name s"
  by (induction secs arbitrary: s) (simp_all add: resume_name_categorize)

lemma resume_name_parsed: "resume_name (parseLatexContent latex) = extractName latex"
  by (simp add: parseLatexContent_def Let_def resume_name_foldl)

text \<open>
  When no pattern, no \<open>center\<close> or \<open>centerline\<close> form and none of the first 15 lines
  matches, \<open>extractName\<close> returns \<open>Resume Preview\<close>. For every source the first text of
  the fallback document is the header name, which is the extracted name, or \<open>Resume Preview\<close>
  when the extracted name is empty: the printed name is never empty.
\<close>

theorem placeholder_when_nothing_matches:
  "(first_nonblank name_patterns latex = None \<and> center_name latex = None
      \<and> rx_match False centerline_name latex = None
      \<and> first_capitalized (take 15 (split_on NL latex)) = None
     \<longrightarrow> extractName latex = ''Resume Preview'')
   \<and> (\<exists>ops. page (generatePDFWithPDFKit lib (parseLatexContent latex))
         = header_op (if extractName latex \<noteq> [] then extractName latex else ''Resume Preview'') # ops)"
proof
  show "first_nonblank name_patterns latex = None \<and> center_name latex = None
      \<and> rx_match False centerline_name latex = None
      \<and> first_capitalized (take 15 (split_on NL latex)) = None
     \<longrightarrow> extractName latex = ''Resume Preview''"
    by (simp add: extractName_def)
  show "\<exists>ops. page (generatePDFWithPDFKit lib (parseLatexContent latex))
         = header_op (if extractName latex \<noteq> [] then extractName latex else ''Resume Preview'') # ops"
    using header_first [of lib "parseLatexContent latex"]
    by (simp only: resume_name_parsed)
qed

theorem placeholder_when_nothing_matches_witness:
  "extractName ''Hi there'' = ''Resume Preview''
   \<and> hd (page (generatePDFWithPDFKit sample_jspdf (parseLatexContent ''Hi there'')))
       = header_op ''Resume Preview''"
proof -
  have n: "first_nonblank name_patterns ''Hi there'' = None \<and> center_name ''Hi there'' = None
      \<and> rx_match False centerline_name ''Hi there'' = None
      \<and> first_capitalized (take 15 (split_on NL ''Hi there'')) = None"
    by code_simp
  show ?thesis
    using placeholder_when_nothing_matches [of "''Hi there''" sample_jspdf] n by auto
qed

text \<open>
  C10: name extraction never yields an empty name; when nothing matches, it is the
  placeholder, which the renderer prints as the header name. The patterns of the loop are
  only accepted with a non-blank group, but the branch of the \<open>center\<close> environment returns
  its group trimmed without that test: for a large text that is a single space
  \<open>extractName\<close> returns the empty name. The renderer then prints the placeholder.
\<close>

theorem blank_center_name_is_empty:
  "center_name blank_center_name = Some []
   \<and> extractName blank_center_name = []
   \<and> hd (page (generatePDFWithPDFKit sample_jspdf (parseLatexContent blank_center_name)))
       = header_op ''Resume Preview''"
proof -
  have e: "center_name blank_center_name = Some [] \<and> extractName blank_center_name = []"
    by code_simp
  obtain ops where "page (generatePDFWithPDFKit sample_jspdf (parseLatexContent blank_center_name))
      = header_op (if resume_name (parseLatexContent blank_center_name) \<noteq> []
                   then resume_name (parseLatexContent blank_center_name) else ''Resume Preview'') # ops"
    using header_first [of sample_jspdf "parseLatexContent blank_center_name"] by blast
  with e show ?thesis
    by (simp add: resume_name_parsed)
qed

end
